theory Spec2Isabelle
  imports Complex_Main
begin

section \<open>Data model (types.ts)\<close>

text \<open>
  The pixel pipeline of \<^verbatim>\<open>utils/imageProcessing.ts\<close> works on JavaScript numbers.
  They are modelled as \<^typ>\<open>real\<close>: finite values without rounding. The only place
  where the model needs a value outside the reals is a typed-array read outside the
  array (\<^verbatim>\<open>undefined\<close>, which arithmetic turns into NaN); there a channel is a
  \<^typ>\<open>real option\<close> and \<^term>\<open>None\<close> stands for NaN.

  Record fields keep the names of the TypeScript interfaces, with a prefix where two
  interfaces share a field name or the name is a single letter.
\<close>

record colorMixerChannel =
  ch_hue :: real
  ch_saturation :: real
  ch_luminance :: real

record localSettings =
  exposure :: real
  contrast :: real
  highlights :: real
  shadows :: real
  texture :: real
  clarity :: real
  saturation :: real
  temperature :: real
  tint :: real

datatype maskType = Color | Linear

text \<open>An HSL triple \<^verbatim>\<open>{h, s, l}\<close> (and the array \<^verbatim>\<open>[h, s, l]\<close>) is a triple of reals.\<close>

type_synonym hsl = "real \<times> real \<times> real"

record mask =
  mask_type :: maskType
  targetColor :: "hsl option"
  colorRange :: real
  mask_x :: real
  mask_y :: real
  radius :: real
  feather :: real
  rotation :: "real option"
  invert :: bool
  opacity :: real
  mask_settings :: localSettings

record colorMixer =
  red :: colorMixerChannel
  orange :: colorMixerChannel
  yellow :: colorMixerChannel
  aqua :: colorMixerChannel
  blue :: colorMixerChannel
  magenta :: colorMixerChannel

record crop =
  crop_x :: real
  crop_y :: real
  crop_width :: real
  crop_height :: real

text \<open>
  \<^verbatim>\<open>EditSettings\<close> holds the nine global sliders flattened beside its other fields: it
  is the extension of \<^typ>\<open>localSettings\<close>. The mixer is declared non-null, but
  \<^verbatim>\<open>getMixerAdjustment\<close> guards against a missing one, so the field is an option.
  The fields the pipeline never reads (\<^verbatim>\<open>lutId\<close>, the legacy skin sliders) are left out.
\<close>

record editSettings = localSettings +
  colorMixer :: "colorMixer option"
  lutIntensity :: real
  masks :: "mask list"
  crop :: "crop option"
  isMirrored :: bool

record lut =
  lut_size :: int
  lut_data :: "real list"

text \<open>
  \<^verbatim>\<open>ImageData\<close>: the bytes of a \<^verbatim>\<open>Uint8ClampedArray\<close> as naturals, row-major RGBA.
  The browser only builds an \<^verbatim>\<open>ImageData\<close> whose sides are positive and whose buffer
  holds \<open>4 * width * height\<close> bytes.
\<close>

record imageData =
  img_data :: "nat list"
  img_width :: nat
  img_height :: nat

definition ImageData_ok :: "imageData \<Rightarrow> bool" where
  "ImageData_ok img \<longleftrightarrow>
     0 < img_width img \<and> 0 < img_height img \<and>
     length (img_data img) = 4 * img_width img * img_height img \<and>
     list_all (\<lambda>b. b < 256) (img_data img)"

definition DEFAULT_MIXER_CHANNEL :: colorMixerChannel where
  "DEFAULT_MIXER_CHANNEL = \<lparr>ch_hue = 0, ch_saturation = 0, ch_luminance = 0\<rparr>"

definition DEFAULT_LOCAL_SETTINGS :: localSettings where
  "DEFAULT_LOCAL_SETTINGS =
     \<lparr>exposure = 0, contrast = 0, highlights = 0, shadows = 0, texture = 0,
      clarity = 0, saturation = 0, temperature = 0, tint = 0\<rparr>"

definition DEFAULT_MIXER :: colorMixer where
  "DEFAULT_MIXER =
     \<lparr>red = DEFAULT_MIXER_CHANNEL, orange = DEFAULT_MIXER_CHANNEL,
      yellow = DEFAULT_MIXER_CHANNEL, aqua = DEFAULT_MIXER_CHANNEL,
      blue = DEFAULT_MIXER_CHANNEL, magenta = DEFAULT_MIXER_CHANNEL\<rparr>"

definition DEFAULT_SETTINGS :: editSettings where
  "DEFAULT_SETTINGS =
     \<lparr>exposure = 0, contrast = 0, highlights = 0, shadows = 0, texture = 0,
      clarity = 0, saturation = 0, temperature = 0, tint = 0,
      colorMixer = Some DEFAULT_MIXER, lutIntensity = 100, masks = [],
      crop = None, isMirrored = False\<rparr>"

section \<open>Colour space (imageProcessing.ts)\<close>

text \<open>\<^verbatim>\<open>const clamp = (value) => Math.max(0, Math.min(255, value))\<close>\<close>

definition clamp :: "real \<Rightarrow> real" where
  "clamp v = max 0 (min 255 v)"

text \<open>
  \<^verbatim>\<open>rgbToHsl\<close>. The \<^verbatim>\<open>switch (max)\<close> takes the first matching case in the order
  \<open>r\<close>, \<open>g\<close>, \<open>b\<close>; with no match the hue stays 0.
\<close>

definition rgbToHsl :: "real \<Rightarrow> real \<Rightarrow> real \<Rightarrow> hsl" where
  "rgbToHsl r0 g0 b0 =
     (let r = r0 / 255; g = g0 / 255; b = b0 / 255;
          mx = max (max r g) b; mn = min (min r g) b;
          l = (mx + mn) / 2
      in if mx \<noteq> mn then
           (let d = mx - mn;
                s = (if l > 0.5 then d / (2 - mx - mn) else d / (mx + mn));
                h = (if mx = r then (g - b) / d + (if g < b then 6 else 0)
                     else if mx = g then (b - r) / d + 2
                     else if mx = b then (r - g) / d + 4
                     else 0)
            in (h / 6, s, l))
         else (0, 0, l))"

text \<open>The closure \<^verbatim>\<open>hue2rgb\<close> of \<^verbatim>\<open>hslToRgb\<close>, with the \<open>p\<close> and \<open>q\<close> it captures.\<close>

definition hue2rgb :: "real \<Rightarrow> real \<Rightarrow> real \<Rightarrow> real" where
  "hue2rgb p q t0 =
     (let t1 = (if t0 < 0 then t0 + 1 else t0);
          t = (if t1 > 1 then t1 - 1 else t1)
      in if t < 1 / 6 then p + (q - p) * 6 * t
         else if t < 1 / 2 then q
         else if t < 2 / 3 then p + (q - p) * (2 / 3 - t) * 6
         else p)"

definition hslToRgb :: "real \<Rightarrow> real \<Rightarrow> real \<Rightarrow> real \<times> real \<times> real" where
  "hslToRgb h s l =
     (if s = 0 then (l * 255, l * 255, l * 255)
      else
        (let q = (if l < 0.5 then l * (1 + s) else l + s - l * s);
             p = 2 * l - q
         in (hue2rgb p q (h + 1 / 3) * 255, hue2rgb p q h * 255,
             hue2rgb p q (h - 1 / 3) * 255)))"

section \<open>Tone adjustments\<close>

text \<open>
  \<^verbatim>\<open>applyAdjustments\<close>: white balance, exposure, contrast, then shadows, highlights and
  clarity (each only when its slider is not 0), then saturation. \<^verbatim>\<open>Math.pow(2, x)\<close> is
  \<open>2 powr x\<close>; the integer powers are \<open>^\<close>.
\<close>

definition applyAdjustments ::
  "real \<Rightarrow> real \<Rightarrow> real \<Rightarrow> localSettings \<Rightarrow> real \<times> real \<times> real" where
  "applyAdjustments r0 g0 b0 settings =
     (let exposureMultiplier = 2 powr (exposure settings / 50);
          contrastFactor =
            (259 * (contrast settings + 255)) / (255 * (259 - contrast settings));
          saturationFactor = 1 + saturation settings / 100;
          tempTintR = 1 + temperature settings / 100 + tint settings / 100;
          tempTintB = 1 - temperature settings / 100;
          tempTintG = 1 - tint settings / 200;
          r1 = r0 * tempTintR; g1 = g0 * tempTintG; b1 = b0 * tempTintB;
          r2 = r1 * exposureMultiplier; g2 = g1 * exposureMultiplier;
          b2 = b1 * exposureMultiplier;
          r3 = contrastFactor * (r2 - 128) + 128;
          g3 = contrastFactor * (g2 - 128) + 128;
          b3 = contrastFactor * (b2 - 128) + 128;
          luma = (0.299 * r3 + 0.587 * g3 + 0.114 * b3) / 255;
          (r4, g4, b4) =
            (if shadows settings \<noteq> 0 then
               (let shadowMask = (1 - luma) ^ 3;
                    shift = shadows settings * shadowMask * 0.6
                in (r3 + shift, g3 + shift, b3 + shift))
             else (r3, g3, b3));
          (r5, g5, b5) =
            (if highlights settings \<noteq> 0 then
               (let highlightMask = luma ^ 3;
                    shift = highlights settings * highlightMask * 0.6
                in (r4 + shift, g4 + shift, b4 + shift))
             else (r4, g4, b4));
          (r6, g6, b6) =
            (if clarity settings \<noteq> 0 then
               (let sigma = (if clarity settings < 0 then 0.5 else 0.2);
                    midtoneMask = exp (- ((luma - 0.5) ^ 2) / (2 * sigma * sigma));
                    clarityFactor = 1 + (clarity settings / 150) * midtoneMask
                in ((r5 - 128) * clarityFactor + 128,
                    (g5 - 128) * clarityFactor + 128,
                    (b5 - 128) * clarityFactor + 128))
             else (r5, g5, b5));
          gray = 0.299 * r6 + 0.587 * g6 + 0.114 * b6
      in (gray + (r6 - gray) * saturationFactor,
          gray + (g6 - gray) * saturationFactor,
          gray + (b6 - gray) * saturationFactor))"

section \<open>Colour mixer\<close>

text \<open>The closure \<^verbatim>\<open>getWeight\<close> of \<^verbatim>\<open>getMixerAdjustment\<close>, with the \<open>hDeg\<close> it captures.\<close>

definition getWeight :: "real \<Rightarrow> real \<Rightarrow> real \<Rightarrow> real" where
  "getWeight hDeg center width =
     (let diff0 = \<bar>hDeg - center\<bar>;
          diff = (if diff0 > 180 then 360 - diff0 else diff0)
      in max 0 (1 - diff / width))"

text \<open>One line \<^verbatim>\<open>if (w > 0) { dh += c.hue * w; ds += c.saturation * w; dl += c.luminance * w; }\<close>\<close>

fun addBand :: "real \<Rightarrow> colorMixerChannel \<Rightarrow> hsl \<Rightarrow> hsl" where
  "addBand w c (dh, ds, dl) =
     (if w > 0 then (dh + ch_hue c * w, ds + ch_saturation c * w, dl + ch_luminance c * w)
      else (dh, ds, dl))"

definition getMixerAdjustment :: "real \<Rightarrow> colorMixer option \<Rightarrow> hsl" where
  "getMixerAdjustment hue mixer =
     (case mixer of
        None \<Rightarrow> (0, 0, 0)
      | Some m \<Rightarrow>
          (let hDeg = hue * 360;
               wRed = getWeight hDeg 0 45 + getWeight hDeg 360 45;
               wOrange = getWeight hDeg 30 30;
               wYellow = getWeight hDeg 60 35;
               wAqua = getWeight hDeg 180 50;
               wBlue = getWeight hDeg 240 50;
               wMagenta = getWeight hDeg 300 50
           in addBand wMagenta (magenta m)
                (addBand wBlue (blue m)
                  (addBand wAqua (aqua m)
                    (addBand wYellow (yellow m)
                      (addBand wOrange (orange m)
                        (addBand wRed (red m) (0, 0, 0))))))))"

text \<open>
  Step 2 of the pixel loop of \<^verbatim>\<open>processImage\<close>. \<^verbatim>\<open>applyMixerDelta\<close> is the body of the
  \<^verbatim>\<open>if\<close>: the HSL triple handed to \<^verbatim>\<open>hslToRgb\<close>. The \<^verbatim>\<open>clamp\<close> it calls is the
  byte clamp above.
\<close>

fun applyMixerDelta :: "hsl \<Rightarrow> hsl \<Rightarrow> hsl" where
  "applyMixerDelta (h, s, l) (adjH, adjS, adjL) =
     (let h1 = h + adjH / 360;
          s1 = clamp (s * (1 + adjS / 100));
          l1 = clamp (l * (1 + adjL / 100));
          h2 = (if h1 < 0 then h1 + 1 else h1);
          h3 = (if h2 > 1 then h2 - 1 else h2)
      in (h3, s1, l1))"

fun mixerStage :: "real \<times> real \<times> real \<Rightarrow> colorMixer option \<Rightarrow> real \<times> real \<times> real" where
  "mixerStage (r, g, b) mixer =
     (let hsl = rgbToHsl (clamp r) (clamp g) (clamp b);
          adj = getMixerAdjustment (fst hsl) mixer
      in if fst adj \<noteq> 0 \<or> fst (snd adj) \<noteq> 0 \<or> snd (snd adj) \<noteq> 0 then
           (case applyMixerDelta hsl adj of (h', s', l') \<Rightarrow> hslToRgb h' s' l')
         else (r, g, b))"

section \<open>Masks\<close>

text \<open>
  The \<^verbatim>\<open>linear\<close> branch of \<^verbatim>\<open>calculateMaskAlpha\<close>. \<^verbatim>\<open>mask.rotation || 0\<close> reads a
  missing rotation as 0. \<open>linearDist\<close> is the value of \<^verbatim>\<open>dist\<close>; \<open>feather0\<close> is the
  constant \<^verbatim>\<open>feather\<close> computed before the branch.
\<close>

definition linearDist :: "real \<Rightarrow> real \<Rightarrow> real \<Rightarrow> real \<Rightarrow> mask \<Rightarrow> real" where
  "linearDist u v width height m =
     (let angleRad = (case rotation m of None \<Rightarrow> 0 | Some a \<Rightarrow> a) * (pi / 180);
          nx = sin angleRad;
          ny = - cos angleRad;
          aspect = width / height;
          dx = u - mask_x m;
          dy = (v - mask_y m) * aspect
      in dx * nx + dy * ny)"

definition linearAlpha :: "real \<Rightarrow> real \<Rightarrow> real \<Rightarrow> real \<Rightarrow> mask \<Rightarrow> real \<Rightarrow> real" where
  "linearAlpha u v width height m feather0 =
     (let dist = linearDist u v width height m;
          f = max 0.001 feather0;
          norm = 0.5 - dist / f
      in max 0 (min 1 norm))"

text \<open>The \<^verbatim>\<open>color\<close> branch, entered with a target colour and a sample.\<close>

fun colorAlpha :: "mask \<Rightarrow> hsl \<Rightarrow> hsl \<Rightarrow> real" where
  "colorAlpha m (targetH, targetS, targetL) (h, s, l) =
     (let hueDiff = \<bar>h - targetH\<bar>;
          diff = min hueDiff (1 - hueDiff);
          range0 = colorRange m / 100;
          colorFeather = 0.1;
          alpha0 = (if diff < range0 then 1
                    else if diff < range0 + colorFeather
                      then 1 - (diff - range0) / colorFeather
                    else 0)
      in if targetS > 0.1 then
           (let satDiff = \<bar>s - targetS\<bar>
            in if satDiff > 0.3 then alpha0 * max 0 (1 - (satDiff - 0.3) * 5) else alpha0)
         else alpha0)"

text \<open>The value of \<^verbatim>\<open>alpha\<close> when \<^verbatim>\<open>calculateMaskAlpha\<close> reaches \<^verbatim>\<open>if (mask.invert)\<close>.\<close>

definition preInvertAlpha ::
  "real \<Rightarrow> real \<Rightarrow> real \<Rightarrow> real \<Rightarrow> mask \<Rightarrow> hsl option \<Rightarrow> real" where
  "preInvertAlpha u v width height m hsl =
     (let feather0 = max 0.01 (feather m / 100)
      in case (mask_type m, targetColor m, hsl) of
           (Linear, _, _) \<Rightarrow> linearAlpha u v width height m feather0
         | (Color, Some t, Some c) \<Rightarrow> colorAlpha m t c
         | _ \<Rightarrow> 0)"

definition calculateMaskAlpha ::
  "real \<Rightarrow> real \<Rightarrow> real \<Rightarrow> real \<Rightarrow> mask \<Rightarrow> hsl option \<Rightarrow> real" where
  "calculateMaskAlpha u v width height m hsl =
     (let alpha0 = preInvertAlpha u v width height m hsl;
          alpha = (if invert m then 1 - alpha0 else alpha0)
      in alpha * (opacity m / 100))"

text \<open>
  The spec's wording of the linear alpha, for comparison with \<^const>\<open>preInvertAlpha\<close>:
  the distance is divided by \<open>f = max(0.001, feather/100)\<close>.
\<close>

definition spec_linearAlpha :: "real \<Rightarrow> real \<Rightarrow> real \<Rightarrow> real \<Rightarrow> mask \<Rightarrow> real" where
  "spec_linearAlpha u v width height m =
     (let theta = (case rotation m of None \<Rightarrow> 0 | Some a \<Rightarrow> a) * (pi / 180);
          dist = (u - mask_x m) * sin theta + (v - mask_y m) * (width / height) * (- cos theta);
          f = max 0.001 (feather m / 100)
      in max 0 (min 1 (0.5 - dist / f)))"

text \<open>
  Step 3 of the pixel loop: the mirror and the crop applied to a local \<open>(u, v)\<close>, and
  the \<open>(u, v)\<close> of the pixel at byte offset \<open>i\<close> (a multiple of 4).
\<close>

fun remapUV :: "editSettings \<Rightarrow> real \<times> real \<Rightarrow> real \<times> real" where
  "remapUV settings (u0, v0) =
     (let u1 = (if isMirrored settings then 1 - u0 else u0)
      in case crop settings of
           None \<Rightarrow> (u1, v0)
         | Some c \<Rightarrow> (crop_x c + u1 * crop_width c, crop_y c + v0 * crop_height c))"

definition maskUV :: "editSettings \<Rightarrow> nat \<Rightarrow> nat \<Rightarrow> nat \<Rightarrow> real \<times> real" where
  "maskUV settings width height i =
     (let x = (i div 4) mod width;
          y = (i div 4) div width;
          u = real x / real width;
          v = real y / real height
      in remapUV settings (u, v))"

text \<open>The loop \<^verbatim>\<open>for (const mask of settings.masks)\<close>, on the running \<open>(r, g, b)\<close>.\<close>

fun applyMasks ::
  "mask list \<Rightarrow> real \<Rightarrow> real \<Rightarrow> real \<Rightarrow> real \<Rightarrow> nat \<times> nat \<times> nat \<Rightarrow>
   real \<times> real \<times> real \<Rightarrow> real \<times> real \<times> real" where
  "applyMasks [] u v width height orig rgb = rgb"
| "applyMasks (m # ms) u v width height (originalR, originalG, originalB) (r, g, b) =
     (if opacity m = 0 then
        applyMasks ms u v width height (originalR, originalG, originalB) (r, g, b)
      else
        (let maskHsl = (if mask_type m = Color
                        then Some (rgbToHsl (real originalR) (real originalG) (real originalB))
                        else None);
             alpha = calculateMaskAlpha u v width height m maskHsl
         in if alpha > 0 then
              (case applyAdjustments r g b (mask_settings m) of
                 (mr, mg, mb) \<Rightarrow>
                   applyMasks ms u v width height (originalR, originalG, originalB)
                     (r * (1 - alpha) + mr * alpha,
                      g * (1 - alpha) + mg * alpha,
                      b * (1 - alpha) + mb * alpha))
            else applyMasks ms u v width height (originalR, originalG, originalB) (r, g, b)))"

section \<open>LUT\<close>

text \<open>\<^verbatim>\<open>Math.round\<close>: the nearest integer, a tie going up.\<close>

definition jsRound :: "real \<Rightarrow> int" where
  "jsRound x = \<lfloor>x + 1 / 2\<rfloor>"

text \<open>
  A read of the \<^verbatim>\<open>Float32Array\<close> at an integer index: \<^verbatim>\<open>undefined\<close> (here \<^term>\<open>None\<close>)
  outside the array, never an exception.
\<close>

definition lutRead :: "real list \<Rightarrow> int \<Rightarrow> real option" where
  "lutRead xs i = (if 0 \<le> i \<and> i < int (length xs) then Some (xs ! nat i) else None)"

text \<open>\<^verbatim>\<open>c * (1 - lutIntensity) + data[j] * 255 * lutIntensity\<close>; NaN when the read is \<^verbatim>\<open>undefined\<close>.\<close>

definition lutBlend :: "real \<Rightarrow> real \<Rightarrow> real option \<Rightarrow> real option" where
  "lutBlend c k v = (case v of None \<Rightarrow> None | Some x \<Rightarrow> Some (c * (1 - k) + x * 255 * k))"

fun lutIndex :: "lut \<Rightarrow> real \<times> real \<times> real \<Rightarrow> int" where
  "lutIndex activeLut (r, g, b) =
     (let lutSize = lut_size activeLut;
          lutSizeSq = lutSize * lutSize;
          lutSizeMinus1 = lutSize - 1;
          nr = clamp r / 255; ng = clamp g / 255; nb = clamp b / 255;
          ri = jsRound (nr * real_of_int lutSizeMinus1);
          gi = jsRound (ng * real_of_int lutSizeMinus1);
          bi = jsRound (nb * real_of_int lutSizeMinus1)
      in (ri + gi * lutSize + bi * lutSizeSq) * 3)"

text \<open>Step 4 of the pixel loop. Each channel comes out as a number or as NaN.\<close>

fun lutStage ::
  "editSettings \<Rightarrow> lut option \<Rightarrow> real \<times> real \<times> real \<Rightarrow>
   real option \<times> real option \<times> real option" where
  "lutStage settings None (r, g, b) = (Some r, Some g, Some b)"
| "lutStage settings (Some activeLut) (r, g, b) =
     (if lutIntensity settings > 0 then
        (let k = lutIntensity settings / 100;
             idx = lutIndex activeLut (r, g, b)
         in if idx < int (length (lut_data activeLut)) - 2 then
              (lutBlend r k (lutRead (lut_data activeLut) idx),
               lutBlend g k (lutRead (lut_data activeLut) (idx + 1)),
               lutBlend b k (lutRead (lut_data activeLut) (idx + 2)))
            else (Some r, Some g, Some b))
      else (Some r, Some g, Some b))"

section \<open>The frame: \<^verbatim>\<open>processImage\<close>\<close>

text \<open>
  A store into a \<^verbatim>\<open>Uint8ClampedArray\<close>: NaN is stored as 0, a number is clamped to
  0..255 and rounded to the nearest integer, a tie going to the even one.
\<close>

definition toUint8Clamp :: "real \<Rightarrow> nat" where
  "toUint8Clamp x =
     (let c = min 255 (max 0 x); f = \<lfloor>c\<rfloor>
      in nat (if of_int f + 1 / 2 < c then f + 1
              else if c < of_int f + 1 / 2 then f
              else if even f then f else f + 1))"

text \<open>\<^verbatim>\<open>output[j] = clamp(c)\<close>\<close>

definition storeByte :: "real option \<Rightarrow> nat" where
  "storeByte c = (case c of None \<Rightarrow> 0 | Some x \<Rightarrow> toUint8Clamp (clamp x))"

text \<open>Steps 1 to 4 for the pixel at byte offset \<open>i\<close>, from its three original bytes.\<close>

fun processPixel ::
  "editSettings \<Rightarrow> lut option \<Rightarrow> nat \<Rightarrow> nat \<Rightarrow> nat \<Rightarrow> nat \<times> nat \<times> nat \<Rightarrow>
   real option \<times> real option \<times> real option" where
  "processPixel settings activeLut width height i (originalR, originalG, originalB) =
     (let globalLocalSettings = localSettings.truncate settings;
          rgb1 = applyAdjustments (real originalR) (real originalG) (real originalB)
                   globalLocalSettings;
          rgb2 = mixerStage rgb1 (colorMixer settings);
          rgb3 = (if masks settings \<noteq> [] then
                    (case maskUV settings width height i of
                       (u, v) \<Rightarrow>
                         applyMasks (masks settings) u v (real width) (real height)
                           (originalR, originalG, originalB) rgb2)
                  else rgb2)
      in lutStage settings activeLut rgb3)"

text \<open>
  The loop \<^verbatim>\<open>for (let i = 0; i < data.length; i += 4)\<close>. The buffer of an
  \<^verbatim>\<open>ImageData\<close> holds a multiple of 4 bytes (\<^const>\<open>ImageData_ok\<close>), so the reads at
  \<open>i + 1\<close> and \<open>i + 2\<close> are inside it whenever \<open>i\<close> is. A store past the end of a
  typed array does nothing, as a list update past the end does.
\<close>

function pixelLoop ::
  "editSettings \<Rightarrow> lut option \<Rightarrow> nat \<Rightarrow> nat \<Rightarrow> nat list \<Rightarrow> nat \<Rightarrow> nat list \<Rightarrow> nat list" where
  "pixelLoop settings activeLut width height data i output =
     (if i < length data then
        (case processPixel settings activeLut width height i
                (data ! i, data ! (i + 1), data ! (i + 2)) of
           (r, g, b) \<Rightarrow>
             pixelLoop settings activeLut width height data (i + 4)
               (output[i := storeByte r, i + 1 := storeByte g, i + 2 := storeByte b]))
      else output)"
  by pat_completeness auto
termination
  by (relation "measure (\<lambda>(settings, activeLut, width, height, data, i, output). length data - i)")
     auto

declare pixelLoop.simps [simp del]

text \<open>
  The body of the innermost texture loop, for channel \<open>c\<close> of the pixel in row \<open>y\<close> and
  column \<open>x\<close>: \<open>textureValue\<close> is the number \<^verbatim>\<open>clamp(center + diff * finalAmount)\<close>, read
  from the snapshot \<^verbatim>\<open>textureData\<close>, and \<open>texturePixel\<close> is its store into \<^verbatim>\<open>output\<close>.
\<close>

definition textureValue :: "nat list \<Rightarrow> nat \<Rightarrow> real \<Rightarrow> nat \<Rightarrow> nat \<Rightarrow> nat \<Rightarrow> real" where
  "textureValue textureData width amount y x c =
     (let i = (y * width + x) * 4;
          center = real (textureData ! (i + c));
          avg = (real (textureData ! (((y - 1) * width + x - 1) * 4 + c)) +
                 real (textureData ! (((y - 1) * width + x) * 4 + c)) +
                 real (textureData ! (((y - 1) * width + x + 1) * 4 + c)) +
                 real (textureData ! ((y * width + x - 1) * 4 + c)) +
                 real (textureData ! ((y * width + x + 1) * 4 + c)) +
                 real (textureData ! (((y + 1) * width + x - 1) * 4 + c)) +
                 real (textureData ! (((y + 1) * width + x) * 4 + c)) +
                 real (textureData ! (((y + 1) * width + x + 1) * 4 + c)) +
                 center) / 9;
          finalAmount = (if amount > 0 then amount * 0.5 else amount);
          diff = center - avg
      in clamp (center + diff * finalAmount))"

definition texturePixel ::
  "nat list \<Rightarrow> nat \<Rightarrow> real \<Rightarrow> nat \<Rightarrow> nat \<Rightarrow> nat \<Rightarrow> nat list \<Rightarrow> nat list" where
  "texturePixel textureData width amount y x c output =
     (let i = (y * width + x) * 4
      in output[i + c := toUint8Clamp (textureValue textureData width amount y x c)])"

text \<open>The texture pass: rows \<open>1 .. height - 2\<close>, columns \<open>1 .. width - 2\<close>, channels 0 to 2.\<close>

definition textureFilter :: "editSettings \<Rightarrow> nat \<Rightarrow> nat \<Rightarrow> nat list \<Rightarrow> nat list" where
  "textureFilter settings width height output =
     (if texture settings \<noteq> 0 then
        (let textureData = output;
             amount = texture settings / 100
         in fold (\<lambda>y. fold (\<lambda>x. fold (\<lambda>c. texturePixel textureData width amount y x c)
                                  [0..<3])
                          [1..<width - 1])
              [1..<height - 1] output)
      else output)"

definition processImage :: "imageData \<Rightarrow> editSettings \<Rightarrow> lut option \<Rightarrow> imageData" where
  "processImage imageData settings activeLut =
     (let data = img_data imageData;
          width = img_width imageData;
          height = img_height imageData;
          output = pixelLoop settings activeLut width height data 0 data
      in \<lparr>img_data = textureFilter settings width height output,
          img_width = width, img_height = height\<rparr>)"

section \<open>Reading the frame by byte offset\<close>

text \<open>
  Names for what the two passes store at a byte offset \<open>j\<close> of the buffer, used to state
  what \<^const>\<open>processImage\<close> writes. The pixel that owns offset \<open>j\<close> starts at
  \<open>4 * (j div 4)\<close>, sits in row \<open>(j div 4) div width\<close> and column \<open>(j div 4) mod width\<close>,
  and \<open>j mod 4\<close> is the channel.
\<close>

fun channel :: "nat \<Rightarrow> 'a \<times> 'a \<times> 'a \<Rightarrow> 'a" where
  "channel c (r, g, b) = (if c = 0 then r else if c = 1 then g else b)"

text \<open>The byte the pixel loop stores at offset \<open>j\<close>: the store of that channel of the processed pixel.\<close>

definition pixelByte ::
  "editSettings \<Rightarrow> lut option \<Rightarrow> nat \<Rightarrow> nat \<Rightarrow> nat list \<Rightarrow> nat \<Rightarrow> nat" where
  "pixelByte settings activeLut width height data j =
     (let i = 4 * (j div 4)
      in storeByte (channel (j mod 4)
           (processPixel settings activeLut width height i
              (data ! i, data ! (i + 1), data ! (i + 2)))))"

text \<open>
  The offsets the texture loops visit: rows \<open>y\<close> with \<open>1 \<le> y < height - 1\<close> and columns
  \<open>x\<close> with \<open>1 \<le> x < width - 1\<close>.
\<close>

definition interior :: "nat \<Rightarrow> nat \<Rightarrow> nat \<Rightarrow> bool" where
  "interior width height j \<longleftrightarrow>
     1 \<le> (j div 4) div width \<and> (j div 4) div width + 1 < height \<and>
     1 \<le> (j div 4) mod width \<and> (j div 4) mod width + 1 < width"

text \<open>The byte the texture pass stores at an interior offset \<open>j\<close>, from the snapshot.\<close>

definition textureByte :: "nat list \<Rightarrow> nat \<Rightarrow> real \<Rightarrow> nat \<Rightarrow> nat" where
  "textureByte textureData width amount j =
     toUint8Clamp (textureValue textureData width amount
                     ((j div 4) div width) ((j div 4) mod width) (j mod 4))"

section \<open>Concrete inputs\<close>

text \<open>A mixer whose only non-zero slider is the saturation of the red band.\<close>

definition redOnly :: "real \<Rightarrow> colorMixer" where
  "redOnly d = DEFAULT_MIXER\<lparr>red := \<lparr>ch_hue = 0, ch_saturation = d, ch_luminance = 0\<rparr>\<rparr>"

text \<open>A horizontal linear mask through the centre of the image, feather 0.5.\<close>

definition thinLinearMask :: mask where
  "thinLinearMask =
     \<lparr>mask_type = Linear, targetColor = None, colorRange = 0, mask_x = 1 / 2, mask_y = 1 / 2,
      radius = 0, feather = 1 / 2, rotation = None, invert = False, opacity = 100,
      mask_settings = DEFAULT_LOCAL_SETTINGS\<rparr>"

text \<open>An inverted colour mask on pure red, range 10, opacity 50.\<close>

definition redColorMask :: mask where
  "redColorMask =
     \<lparr>mask_type = Color, targetColor = Some (0, 1, 1 / 2), colorRange = 10, mask_x = 0,
      mask_y = 0, radius = 0, feather = 0, rotation = None, invert = True, opacity = 50,
      mask_settings = DEFAULT_LOCAL_SETTINGS\<rparr>"

text \<open>The view of the spec's remap example: mirrored, cropped to the middle half.\<close>

definition mirroredCrop :: editSettings where
  "mirroredCrop =
     DEFAULT_SETTINGS\<lparr>crop := Some \<lparr>crop_x = 1 / 4, crop_y = 0, crop_width = 1 / 2,
                                     crop_height = 1\<rparr>,
                       isMirrored := True\<rparr>"

text \<open>An empty LUT of size 0, and a LUT of size 2 that holds one triple instead of eight.\<close>

definition lutZero :: lut where
  "lutZero = \<lparr>lut_size = 0, lut_data = []\<rparr>"

definition lutShort :: lut where
  "lutShort = \<lparr>lut_size = 2, lut_data = [0, 0, 0]\<rparr>"

text \<open>A LUT of size 2 that holds one white triple instead of eight.\<close>

definition lutWhiteShort :: lut where
  "lutWhiteShort = \<lparr>lut_size = 2, lut_data = [1, 1, 1]\<rparr>"

text \<open>Settings with one stop of exposure, full texture and a LUT at half intensity.\<close>

definition brightTextured :: editSettings where
  "brightTextured = DEFAULT_SETTINGS\<lparr>exposure := 50, texture := 100, lutIntensity := 50\<rparr>"

text \<open>
  A 3 by 3 image: a ring of eight pixels (200, 50, 25, 255) around the centre pixel
  (60, 30, 10, 200), the only one the texture pass visits.
\<close>

definition ringImage :: imageData where
  "ringImage =
     \<lparr>img_data = [200, 50, 25, 255,  200, 50, 25, 255,  200, 50, 25, 255,
                   200, 50, 25, 255,  60, 30, 10, 200,   200, 50, 25, 255,
                   200, 50, 25, 255,  200, 50, 25, 255,  200, 50, 25, 255],
      img_width = 3, img_height = 3\<rparr>"

section \<open>A proof device: the hue wheel in sextants\<close>

text \<open>
  \<^const>\<open>hue2rgb\<close> read on the scale \<open>x = 6 t\<close>, where its four pieces have integer ends.
  It is used only to organise the round-trip proof.
\<close>

definition sextant :: "real \<Rightarrow> real \<Rightarrow> real \<Rightarrow> real" where
  "sextant p q x =
     (let y = (if x < 0 then x + 6 else if x > 6 then x - 6 else x)
      in if y < 1 then p + (q - p) * y
         else if y < 3 then q
         else if y < 4 then p + (q - p) * (4 - y)
         else p)"

section \<open>Tone adjustments: the neutral settings\<close>

text \<open>
  C6. With all nine sliders at zero (\<^verbatim>\<open>DEFAULT_LOCAL_SETTINGS\<close>), \<^verbatim>\<open>applyAdjustments\<close>
  returns its RGB input unchanged, for every triple of numbers.
\<close>

theorem applyAdjustments_zero_identity:
  "applyAdjustments r g b
     \<lparr>exposure = 0, contrast = 0, highlights = 0, shadows = 0, texture = 0,
      clarity = 0, saturation = 0, temperature = 0, tint = 0\<rparr> = (r, g, b)"
  by (simp add: applyAdjustments_def)

section \<open>Colour space: the round trip\<close>

lemma hue2rgb_sextant: "hue2rgb p q (x / 6) = sextant p q x"
  unfolding hue2rgb_def sextant_def Let_def
  by (auto simp: field_simps)

lemma hue2rgb_sextant_plus: "hue2rgb p q (x / 6 + 1 / 3) = sextant p q (x + 2)"
  using hue2rgb_sextant[of p q "x + 2"] by (simp add: add_divide_distrib)

lemma hue2rgb_sextant_minus: "hue2rgb p q (x / 6 - 1 / 3) = sextant p q (x - 2)"
  using hue2rgb_sextant[of p q "x - 2"] by (simp add: diff_divide_distrib)

lemma sextant_rising: "0 \<le> x \<Longrightarrow> x \<le> 1 \<Longrightarrow> sextant p q x = p + (q - p) * x"
  by (auto simp: sextant_def Let_def)

lemma sextant_top: "1 \<le> x \<Longrightarrow> x \<le> 3 \<Longrightarrow> sextant p q x = q"
  by (auto simp: sextant_def Let_def)

lemma sextant_falling: "3 \<le> x \<Longrightarrow> x \<le> 4 \<Longrightarrow> sextant p q x = p + (q - p) * (4 - x)"
  by (auto simp: sextant_def Let_def)

lemma sextant_bottom: "4 \<le> x \<Longrightarrow> x \<le> 6 \<Longrightarrow> sextant p q x = p"
  by (auto simp: sextant_def Let_def)

lemma sextant_neg: "- 6 \<le> x \<Longrightarrow> x < 0 \<Longrightarrow> sextant p q x = sextant p q (x + 6)"
  by (auto simp: sextant_def Let_def)

lemma sextant_pos: "6 < x \<Longrightarrow> x \<le> 12 \<Longrightarrow> sextant p q x = sextant p q (x - 6)"
  by (auto simp: sextant_def Let_def)


lemma sextant_rising_eq:
  "0 \<le> x \<Longrightarrow> x \<le> 1 \<Longrightarrow> (q - p) * x = k \<Longrightarrow> sextant p q x = p + k"
  by (auto simp: sextant_def Let_def)

lemma sextant_falling_eq:
  "- 1 \<le> x \<Longrightarrow> x \<le> 0 \<Longrightarrow> (q - p) * x = k \<Longrightarrow> sextant p q (x + 4) = p - k"
  by (auto simp: sextant_def Let_def algebra_simps)

lemma hue_roundtrip:
  fixes R G B :: real
  assumes mx: "mx = max (max R G) B" and mn: "mn = min (min R G) B" and ne: "mx \<noteq> mn"
    and h6: "h6 = (if mx = R then (G - B) / (mx - mn) + (if G < B then 6 else 0)
                   else if mx = G then (B - R) / (mx - mn) + 2
                   else if mx = B then (R - G) / (mx - mn) + 4
                   else 0)"
  shows "sextant mn mx (h6 + 2) = R \<and> sextant mn mx h6 = G \<and> sextant mn mx (h6 - 2) = B"
proof -
  have d: "0 < mx - mn" using mx mn ne by (auto simp: max_def min_def split: if_splits)
  have le: "mn \<le> R" "mn \<le> G" "mn \<le> B" "R \<le> mx" "G \<le> mx" "B \<le> mx"
    using mx mn by auto
  have mxc: "mx = R \<or> mx = G \<or> mx = B" using mx by (simp add: max_def)
  have tot: "B \<le> G \<or> G < B" by auto
  consider (rge) "mx = R" "B \<le> G" | (rlt) "mx = R" "G < B" | (g) "mx \<noteq> R" "mx = G"
    | (b) "mx \<noteq> R" "mx \<noteq> G" "mx = B"
    using mxc tot by blast
  then show ?thesis
  proof cases
    case rge
    define x where "x = (G - B) / (mx - mn)"
    have mnB: "mn = B" using mn rge le by (auto simp: min_def split: if_splits)
    have dx: "(mx - mn) * x = G - B" using d by (simp add: x_def)
    have x: "0 \<le> x" "x \<le> 1" using d rge le mnB by (simp_all add: x_def)
    have h: "h6 = x" using h6 rge by (simp add: x_def)
    have r: "sextant mn mx (x + 2) = R"
      using x rge by (simp add: sextant_top)
    have g: "sextant mn mx x = G"
      using sextant_rising_eq[OF x dx] mnB by simp
    have b: "sextant mn mx (x - 2) = B"
      using x mnB by (simp add: sextant_neg sextant_bottom)
    have e: "h6 + 2 = x + 2" "h6 - 2 = x - 2" using h by simp_all
    show ?thesis unfolding e unfolding h using r g b by blast
  next
    case rlt
    define x where "x = (G - B) / (mx - mn)"
    have mnG: "mn = G" using mn rlt le by (auto simp: min_def split: if_splits)
    have dx: "(mx - mn) * x = G - B" using d by (simp add: x_def)
    have x: "- 1 \<le> x" "x < 0" using d rlt le mnG by (simp_all add: x_def field_simps)
    have x0: "x \<le> 0" using x by simp
    have h: "h6 = x + 6" using h6 rlt by (simp add: x_def)
    have "sextant mn mx (x + 8) = sextant mn mx (x + 8 - 6)"
      using x by (intro sextant_pos) simp_all
    also have "\<dots> = mx" using x by (intro sextant_top) simp_all
    finally have r: "sextant mn mx (x + 8) = R" using rlt by simp
    have g: "sextant mn mx (x + 6) = G"
      using x mnG by (simp add: sextant_bottom)
    have b: "sextant mn mx (x + 4) = B"
      using sextant_falling_eq[OF x(1) x0 dx] mnG by simp
    have e: "h6 + 2 = x + 8" "h6 - 2 = x + 4" using h by simp_all
    show ?thesis unfolding e unfolding h using r g b by blast
  next
    case g
    define x where "x = (B - R) / (mx - mn)"
    have dx: "(mx - mn) * x = B - R" using d by (simp add: x_def)
    have x: "- 1 \<le> x" "x \<le> 1" using d g le by (simp_all add: x_def field_simps)
    have h: "h6 = x + 2" using h6 g by (simp add: x_def)
    have sgn: "x < 0 \<longleftrightarrow> B < R" using d by (simp add: x_def field_simps)
    have mnv: "mn = (if B < R then B else R)" using mn g le by (auto simp: min_def split: if_splits)
    have r: "sextant mn mx (x + 4) = R"
    proof (cases "x < 0")
      case True
      then have "sextant mn mx (x + 4) = mn - (B - R)"
        using x dx by (intro sextant_falling_eq) simp_all
      then show ?thesis using mnv sgn True by simp
    next
      case False
      then have "sextant mn mx (x + 4) = mn"
        using x by (intro sextant_bottom) simp_all
      then show ?thesis using mnv sgn False by simp
    qed
    have gg: "sextant mn mx (x + 2) = G"
      using x g by (simp add: sextant_top)
    have b: "sextant mn mx x = B"
    proof (cases "x < 0")
      case True
      then have "sextant mn mx x = mn"
        using x by (simp add: sextant_neg sextant_bottom)
      then show ?thesis using mnv sgn True by simp
    next
      case False
      then have "sextant mn mx x = mn + (B - R)"
        using x dx by (intro sextant_rising_eq) simp_all
      then show ?thesis using mnv sgn False by simp
    qed
    have e: "h6 + 2 = x + 4" "h6 - 2 = x" using h by simp_all
    show ?thesis unfolding e unfolding h using r gg b by blast
  next
    case b
    define x where "x = (R - G) / (mx - mn)"
    have dx: "(mx - mn) * x = R - G" using d by (simp add: x_def)
    have x: "- 1 \<le> x" "x \<le> 1" using d b le by (simp_all add: x_def field_simps)
    have h: "h6 = x + 4" using h6 b by (simp add: x_def)
    have sgn: "x \<le> 0 \<longleftrightarrow> R \<le> G" using d by (simp add: x_def field_simps)
    have mnv: "mn = (if R \<le> G then R else G)" using mn b le by (auto simp: min_def split: if_splits)
    have r: "sextant mn mx (x + 6) = R"
    proof (cases "x \<le> 0")
      case True
      then have "sextant mn mx (x + 6) = mn"
        using x by (intro sextant_bottom) simp_all
      then show ?thesis using mnv sgn True by simp
    next
      case False
      then have "sextant mn mx (x + 6) = sextant mn mx x"
        using x by (simp add: sextant_pos)
      also have "\<dots> = mn + (R - G)"
        using False x dx by (intro sextant_rising_eq) simp_all
      finally show ?thesis using mnv sgn False by simp
    qed
    have g: "sextant mn mx (x + 4) = G"
    proof (cases "x \<le> 0")
      case True
      then have "sextant mn mx (x + 4) = mn - (R - G)"
        using x dx by (intro sextant_falling_eq) simp_all
      then show ?thesis using mnv sgn True by simp
    next
      case False
      then have "sextant mn mx (x + 4) = mn"
        using x by (intro sextant_bottom) simp_all
      then show ?thesis using mnv sgn False by simp
    qed
    have bb: "sextant mn mx (x + 2) = B"
      using x b by (simp add: sextant_top)
    have e: "h6 + 2 = x + 6" "h6 - 2 = x + 2" using h by simp_all
    show ?thesis unfolding e unfolding h using r g bb by blast
  qed
qed


lemma hsl_chroma:
  fixes mx mn :: real
  assumes "0 \<le> mn" "mn < mx" "mx \<le> 1"
    and l: "l = (mx + mn) / 2"
    and s: "s = (if l > 0.5 then (mx - mn) / (2 - mx - mn) else (mx - mn) / (mx + mn))"
  shows "0 < s" and "(if l < 0.5 then l * (1 + s) else l + s - l * s) = mx"
    and "0 < (if l > 0.5 then 2 - mx - mn else mx + mn)"
proof -
  have pos: "0 < mx + mn" "0 < 2 - mx - mn" "0 < mx - mn" using assms(1-3) by simp_all
  show "0 < s" unfolding s using pos by simp
  show "0 < (if l > 0.5 then 2 - mx - mn else mx + mn)" using pos by simp
  show "(if l < 0.5 then l * (1 + s) else l + s - l * s) = mx"
  proof (cases "l > 0.5")
    case True
    define k where "k = s * (mx + mn)"
    from True have "s = (mx - mn) / (2 - mx - mn)" using s by simp
    then have "s * (2 - mx - mn) = mx - mn" using pos by simp
    then have A: "2 * s - k = mx - mn" by (simp add: k_def algebra_simps)
    have "l * s = k / 2" unfolding l k_def by (simp add: field_simps)
    then have "l + s - l * s = l + s - k / 2" by simp
    also have "\<dots> = mx" using A l by argo
    finally show ?thesis using True by simp
  next
    case False
    note notgt = False
    define k where "k = s * (mx + mn)"
    from False have "s = (mx - mn) / (mx + mn)" using s by simp
    then have "s * (mx + mn) = mx - mn" using pos by simp
    then have k: "k = mx - mn" by (simp add: k_def)
    have ls: "l * s = k / 2" unfolding l k_def by (simp add: field_simps)
    show ?thesis
    proof (cases "l < 0.5")
      case True
      have "l * (1 + s) = l + l * s" by (simp add: algebra_simps)
      also have "\<dots> = l + k / 2" using ls by simp
      also have "\<dots> = mx" using k l by argo
      finally show ?thesis using True by simp
    next
      case False
      with notgt have "l = 1 / 2" by simp
      then have lh: "mx + mn = 1" using l by simp
      then have sk: "s = k" by (simp add: k_def)
      have "l + s - l * s = l + k - k / 2" using ls sk by simp
      also have "\<dots> = mx" using k l by argo
      finally show ?thesis using False by simp
    qed
  qed
qed

text \<open>
  C7. For every RGB triple with channels in 0..255, \<^verbatim>\<open>hslToRgb(rgbToHsl(x))\<close> gives back
  \<open>x\<close> (over the reals exactly, so within any tolerance); a grey input \<open>r = g = b\<close> maps
  to hue 0 and saturation 0; and when the channels are not all equal, both divisors of
  \<^verbatim>\<open>rgbToHsl\<close> are positive, so no division by zero occurs.
\<close>

theorem hsl_roundtrip:
  assumes "0 \<le> r" "r \<le> 255" "0 \<le> g" "g \<le> 255" "0 \<le> b" "b \<le> 255"
  shows "(case rgbToHsl r g b of (h, s, l) \<Rightarrow> hslToRgb h s l) = (r, g, b) \<and>
         (r = g \<and> g = b \<longrightarrow> rgbToHsl r g b = (0, 0, r / 255)) \<and>
         (let mx = max (max (r / 255) (g / 255)) (b / 255);
              mn = min (min (r / 255) (g / 255)) (b / 255)
          in mx \<noteq> mn \<longrightarrow>
               0 < mx - mn \<and> 0 < (if (mx + mn) / 2 > 0.5 then 2 - mx - mn else mx + mn))"
proof -
  define R G B where "R = r / 255" and "G = g / 255" and "B = b / 255"
  define mx mn where "mx = max (max R G) B" and "mn = min (min R G) B"
  define l where "l = (mx + mn) / 2"
  have rng: "0 \<le> R" "R \<le> 1" "0 \<le> G" "G \<le> 1" "0 \<le> B" "B \<le> 1"
    using assms by (simp_all add: R_def G_def B_def)
  have unnorm: "R * 255 = r" "G * 255 = g" "B * 255 = b" by (simp_all add: R_def G_def B_def)
  have b0: "0 \<le> mn" "mx \<le> 1" using rng unfolding mx_def mn_def by auto
  have mnmx: "mn \<le> mx" unfolding mx_def mn_def by auto
  have trip: "(case rgbToHsl r g b of (h, s, l) \<Rightarrow> hslToRgb h s l) = (r, g, b)"
  proof (cases "mx = mn")
    case True
    have "mn \<le> R" "R \<le> mx" "mn \<le> G" "G \<le> mx" "mn \<le> B" "B \<le> mx"
      unfolding mx_def mn_def by auto
    then have eq: "R = mx" "G = mx" "B = mx" using True by auto
    have "rgbToHsl r g b = (0, 0, l)"
      using True unfolding rgbToHsl_def Let_def R_def[symmetric] G_def[symmetric] B_def[symmetric]
        mx_def[symmetric] mn_def[symmetric] l_def[symmetric] by simp
    moreover have "l = mx" using True by (simp add: l_def)
    ultimately show ?thesis using eq unnorm by (simp add: hslToRgb_def)
  next
    case False
    define s where "s = (if l > 0.5 then (mx - mn) / (2 - mx - mn) else (mx - mn) / (mx + mn))"
    define h6 where "h6 = (if mx = R then (G - B) / (mx - mn) + (if G < B then 6 else 0)
                   else if mx = G then (B - R) / (mx - mn) + 2
                   else if mx = B then (R - G) / (mx - mn) + 4
                   else 0)"
    have hsl: "rgbToHsl r g b = (h6 / 6, s, l)"
      using False unfolding rgbToHsl_def Let_def R_def[symmetric] G_def[symmetric] B_def[symmetric]
        mx_def[symmetric] mn_def[symmetric] l_def[symmetric] s_def h6_def by simp
    have lt: "mn < mx" using mnmx False by simp
    have s0: "s \<noteq> 0" and q: "(if l < 0.5 then l * (1 + s) else l + s - l * s) = mx"
      using hsl_chroma(1,2)[OF b0(1) lt b0(2) l_def s_def] by simp_all
    have p: "2 * l - mx = mn" by (simp add: l_def field_simps)
    have rt: "sextant mn mx (h6 + 2) = R \<and> sextant mn mx h6 = G \<and> sextant mn mx (h6 - 2) = B"
      using mx_def mn_def False h6_def by (rule hue_roundtrip)
    have "hslToRgb (h6 / 6) s l =
            (hue2rgb mn mx (h6 / 6 + 1 / 3) * 255, hue2rgb mn mx (h6 / 6) * 255,
             hue2rgb mn mx (h6 / 6 - 1 / 3) * 255)"
      unfolding hslToRgb_def Let_def q p using s0 by simp
    also have "\<dots> = (R * 255, G * 255, B * 255)"
      unfolding hue2rgb_sextant hue2rgb_sextant_plus hue2rgb_sextant_minus using rt by simp
    finally show ?thesis using hsl unnorm by simp
  qed
  have grey: "r = g \<and> g = b \<longrightarrow> rgbToHsl r g b = (0, 0, r / 255)"
    by (simp add: rgbToHsl_def Let_def)
  have divs: "mx \<noteq> mn \<longrightarrow> 0 < mx - mn \<and> 0 < (if l > 0.5 then 2 - mx - mn else mx + mn)"
  proof
    assume "mx \<noteq> mn"
    then have lt: "mn < mx" using mnmx by simp
    show "0 < mx - mn \<and> 0 < (if l > 0.5 then 2 - mx - mn else mx + mn)"
      using lt hsl_chroma(3)[OF b0(1) lt b0(2) l_def refl] by simp
  qed
  show ?thesis
    using trip grey divs
    unfolding Let_def R_def[symmetric] G_def[symmetric] B_def[symmetric]
      mx_def[symmetric] mn_def[symmetric] l_def[symmetric]
    by blast
qed

theorem hsl_roundtrip_witness:
  "(0::real) \<le> 200 \<and> (200::real) \<le> 255 \<and> (0::real) \<le> 100 \<and> (100::real) \<le> 255 \<and>
   (0::real) \<le> 50 \<and> (50::real) \<le> 255 \<and>
   (case rgbToHsl 200 100 50 of (h, s, l) \<Rightarrow> hslToRgb h s l) = (200, 100, 50)"
  using hsl_roundtrip [of 200 100 50] by simp

section \<open>Colour mixer: weights and the applied delta\<close>

lemma getWeight_360_same:
  "0 \<le> hDeg \<Longrightarrow> hDeg \<le> 360 \<Longrightarrow> getWeight hDeg 360 width = getWeight hDeg 0 width"
  by (auto simp: getWeight_def Let_def)

text \<open>
  C2. At hue 0, with only the saturation of the red band set to \<open>d\<close>, the adjustment is
  \<open>(0, 2 d, 0)\<close>: \<^verbatim>\<open>getWeight(0, 45)\<close> and \<^verbatim>\<open>getWeight(360, 45)\<close> are both 1 there, because
  \<^verbatim>\<open>getWeight\<close> already wraps the distance at 360 degrees, so the red band weighs 2.
\<close>

theorem getMixerAdjustment_red_at_hue_zero:
  "getWeight 0 0 45 = 1 \<and> getWeight 0 360 45 = 1 \<and>
   getMixerAdjustment 0 (Some (redOnly d)) = (0, 2 * d, 0)"
  by (simp add: getMixerAdjustment_def getWeight_def redOnly_def DEFAULT_MIXER_def
      DEFAULT_MIXER_CHANNEL_def)

text \<open>
  C1. The saturation and the luminance handed to \<^verbatim>\<open>hslToRgb\<close> are clamped to 0..255 by
  the byte clamp, not to 0..1. For the pure red pixel (255, 0, 0), whose saturation is 1,
  and a red saturation slider of 10, the product \<open>s (1 + ds / 100)\<close> is 6/5 and the
  saturation handed over is 6/5.
\<close>

theorem applyMixerDelta_saturation_above_one:
  "applyMixerDelta (h, s, l) (dh, ds, dl) =
     ((let h1 = h + dh / 360; h2 = (if h1 < 0 then h1 + 1 else h1)
       in if h2 > 1 then h2 - 1 else h2),
      max 0 (min 255 (s * (1 + ds / 100))),
      max 0 (min 255 (l * (1 + dl / 100)))) \<and>
   rgbToHsl (clamp 255) (clamp 0) (clamp 0) = (0, 1, 1 / 2) \<and>
   getMixerAdjustment 0 (Some (redOnly 10)) = (0, 20, 0) \<and>
   applyMixerDelta (0, 1, 1 / 2) (0, 20, 0) = (0, 6 / 5, 1 / 2)"
  by (simp add: Let_def clamp_def rgbToHsl_def getMixerAdjustment_def getWeight_def redOnly_def
      DEFAULT_MIXER_def DEFAULT_MIXER_CHANNEL_def)

text \<open>
  C10. With every slider of the six bands at zero (\<^verbatim>\<open>DEFAULT_SETTINGS.colorMixer\<close>), the
  mixer stage returns the RGB triple it was given, unclamped and unconverted, for every
  triple of numbers.
\<close>

theorem mixerStage_zero_mixer_identity:
  "mixerStage (r, g, b) (Some DEFAULT_MIXER) = (r, g, b)"
  by (simp add: getMixerAdjustment_def DEFAULT_MIXER_def DEFAULT_MIXER_CHANNEL_def Let_def)

section \<open>Masks: coordinates and alpha\<close>

text \<open>
  C4. The pixel in column \<open>x\<close> and row \<open>y\<close> starts from \<open>u = x / width\<close>,
  \<open>v = y / height\<close>; a mirrored view flips \<open>u\<close> to \<open>1 - u\<close> first, and then a crop maps
  \<open>u\<close> to \<open>crop.x + u * crop.width\<close> and \<open>v\<close> to \<open>crop.y + v * crop.height\<close>. In the
  mirrored view cropped to \<open>{x: 0.25, y: 0, width: 0.5, height: 1}\<close>, local \<open>(0, 0)\<close> maps
  to \<open>(0.75, 0)\<close>.
\<close>

theorem maskUV_mirror_then_crop:
  "x < width \<Longrightarrow>
   maskUV settings width height (4 * (y * width + x)) =
     (let u = real x / real width;
          v = real y / real height;
          u' = (if isMirrored settings then 1 - u else u)
      in case crop settings of
           None \<Rightarrow> (u', v)
         | Some c \<Rightarrow> (crop_x c + u' * crop_width c, crop_y c + v * crop_height c)) \<and>
   remapUV (settings\<lparr>crop := Some \<lparr>crop_x = 0.25, crop_y = 0, crop_width = 0.5,
                                     crop_height = 1\<rparr>,
                      isMirrored := True\<rparr>) (0, 0) = (0.75, 0)"
  by (simp add: maskUV_def Let_def)

theorem maskUV_mirror_then_crop_witness:
  "(0::nat) < 4 \<and> maskUV mirroredCrop 4 2 0 = (3 / 4, 0) \<and>
   remapUV mirroredCrop (0, 0) = (3 / 4, 0)"
  using maskUV_mirror_then_crop [of 0 4 mirroredCrop 2 0]
  by (simp add: mirroredCrop_def DEFAULT_SETTINGS_def)

text \<open>
  C3, as the spec words it, fails: for the horizontal mask with feather 0.5 the code
  divides the distance 0.003 by 0.01 and returns 0.2, where the spec's divisor
  \<open>max(0.001, feather/100) = 0.005\<close> gives 0.
\<close>

theorem linear_feather_divisor_counterexample:
  "preInvertAlpha (1 / 2) (497 / 1000) 1 1 thinLinearMask None = 1 / 5 \<and>
   spec_linearAlpha (1 / 2) (497 / 1000) 1 1 thinLinearMask = 0"
  by (simp add: preInvertAlpha_def linearAlpha_def linearDist_def spec_linearAlpha_def
      thinLinearMask_def)

text \<open>
  C3, amended. For a linear mask the alpha before invert and opacity is
  \<open>0.5 - dist / f\<close> clamped to 0..1, where \<open>dist\<close> is the offset from the mask centre
  (the \<open>v\<close> part scaled by \<open>width / height\<close>) projected on \<open>(sin \<theta>, - cos \<theta>)\<close> and
  \<open>f = max(0.01, feather / 100)\<close>; for a feather between 0.1 and 1 the divisor is 0.01.
\<close>

theorem preInvertAlpha_linear:
  assumes "mask_type m = Linear"
  shows "linearDist u v w h m =
           (u - mask_x m) * sin ((case rotation m of None \<Rightarrow> 0 | Some a \<Rightarrow> a) * (pi / 180))
           + (v - mask_y m) * (w / h)
             * (- cos ((case rotation m of None \<Rightarrow> 0 | Some a \<Rightarrow> a) * (pi / 180))) \<and>
         preInvertAlpha u v w h m hsl =
           max 0 (min 1 (1 / 2 - linearDist u v w h m / max (1 / 100) (feather m / 100))) \<and>
         (1 / 10 < feather m \<and> feather m < 1 \<longrightarrow>
            preInvertAlpha u v w h m hsl =
              max 0 (min 1 (1 / 2 - linearDist u v w h m / (1 / 100))))"
proof -
  have f: "max (1 / 1000) (max (1 / 100) (feather m / 100)) = max (1 / 100) (feather m / 100)"
    by simp
  have a: "preInvertAlpha u v w h m hsl =
           max 0 (min 1 (1 / 2 - linearDist u v w h m / max (1 / 100) (feather m / 100)))"
    using assms f by (simp add: preInvertAlpha_def linearAlpha_def Let_def)
  have "feather m < 1 \<Longrightarrow> max (1 / 100) (feather m / 100) = 1 / 100"
    by simp
  then show ?thesis using a by (simp add: linearDist_def Let_def)
qed

theorem preInvertAlpha_linear_witness:
  "mask_type thinLinearMask = Linear \<and>
   1 / 10 < feather thinLinearMask \<and> feather thinLinearMask < 1 \<and>
   preInvertAlpha (1 / 2) (2 / 5) 1 1 thinLinearMask None =
     max 0 (min 1 (1 / 2 - linearDist (1 / 2) (2 / 5) 1 1 thinLinearMask / (1 / 100)))"
  using preInvertAlpha_linear [of thinLinearMask "1 / 2" "2 / 5" 1 1 None]
  by (simp add: thinLinearMask_def)

lemma linearAlpha_range: "0 \<le> linearAlpha u v w h m f \<and> linearAlpha u v w h m f \<le> 1"
  by (simp add: linearAlpha_def Let_def)

lemma colorAlpha_range: "0 \<le> colorAlpha m t c \<and> colorAlpha m t c \<le> 1"
proof -
  obtain th ts tl' where t: "t = (th, ts, tl')" by (cases t)
  obtain h s l where c: "c = (h, s, l)" by (cases c)
  define a0 where "a0 = (if min \<bar>h - th\<bar> (1 - \<bar>h - th\<bar>) < colorRange m / 100 then 1
                    else if min \<bar>h - th\<bar> (1 - \<bar>h - th\<bar>) < colorRange m / 100 + 0.1
                      then 1 - (min \<bar>h - th\<bar> (1 - \<bar>h - th\<bar>) - colorRange m / 100) / 0.1
                    else (0::real))"
  define k0 where "k0 = max 0 (1 - (\<bar>s - ts\<bar> - 0.3) * 5)"
  have a0: "0 \<le> a0" "a0 \<le> 1"
    unfolding a0_def by (auto simp: field_simps)
  have eq: "colorAlpha m t c = (if ts > 0.1 \<and> \<bar>s - ts\<bar> > 0.3 then a0 * k0 else a0)"
    unfolding t c a0_def k0_def by (simp add: Let_def)
  show ?thesis
  proof (cases "ts > 0.1 \<and> \<bar>s - ts\<bar> > 0.3")
    case True
    then have k0: "0 \<le> k0" "k0 \<le> 1" unfolding k0_def by auto
    have "0 \<le> a0 * k0" using a0 k0 by (intro mult_nonneg_nonneg)
    moreover have "a0 * k0 \<le> 1" using a0 k0 by (intro mult_le_one)
    ultimately show ?thesis using eq True by simp
  next
    case False
    then show ?thesis using eq a0 by auto
  qed
qed

lemma preInvertAlpha_range: "0 \<le> preInvertAlpha u v w h m hsl \<and> preInvertAlpha u v w h m hsl \<le> 1"
  using linearAlpha_range colorAlpha_range
  by (auto simp: preInvertAlpha_def Let_def split: maskType.splits option.splits)

text \<open>
  C8. For every mask whose opacity lies in 0..100 (linear or colour, inverted or not, any
  feather and colour range), every \<open>(u, v)\<close>, every image with a non-zero height and
  every optional sample, the alpha before invert is in 0..1, the result is that alpha
  (or 1 minus it, when the mask is inverted) times \<open>opacity / 100\<close>, and the result is
  in 0..1.
\<close>

theorem calculateMaskAlpha_range:
  assumes "0 \<le> opacity m" "opacity m \<le> 100" "0 < h"
  shows "0 \<le> preInvertAlpha u v w h m hsl \<and> preInvertAlpha u v w h m hsl \<le> 1 \<and>
    calculateMaskAlpha u v w h m hsl =
      (if invert m then 1 - preInvertAlpha u v w h m hsl else preInvertAlpha u v w h m hsl)
      * (opacity m / 100) \<and>
    0 \<le> calculateMaskAlpha u v w h m hsl \<and> calculateMaskAlpha u v w h m hsl \<le> 1"
proof -
  let ?a = "preInvertAlpha u v w h m hsl"
  let ?b = "if invert m then 1 - ?a else ?a"
  have a: "0 \<le> ?a \<and> ?a \<le> 1" by (rule preInvertAlpha_range)
  then have b: "0 \<le> ?b \<and> ?b \<le> 1" by simp
  have o: "0 \<le> opacity m / 100 \<and> opacity m / 100 \<le> 1" using assms by simp
  have eq: "calculateMaskAlpha u v w h m hsl = ?b * (opacity m / 100)"
    by (simp add: calculateMaskAlpha_def Let_def)
  have "0 \<le> ?b * (opacity m / 100)" using b o by (intro mult_nonneg_nonneg) auto
  moreover have "?b * (opacity m / 100) \<le> 1" using b o by (intro mult_le_one) auto
  ultimately show ?thesis using a eq by simp
qed

theorem calculateMaskAlpha_range_witness:
  "0 \<le> opacity redColorMask \<and> opacity redColorMask \<le> 100 \<and> (0::real) < 2 \<and>
   0 \<le> calculateMaskAlpha (1 / 4) (3 / 4) 3 2 redColorMask (Some (1 / 2, 1, 1 / 2)) \<and>
   calculateMaskAlpha (1 / 4) (3 / 4) 3 2 redColorMask (Some (1 / 2, 1, 1 / 2)) \<le> 1"
  using calculateMaskAlpha_range [of redColorMask 2 "1 / 4" "3 / 4" 3 "Some (1 / 2, 1, 1 / 2)"]
  by (simp add: redColorMask_def)

section \<open>LUT: the bounds check\<close>

lemma clamp_range: "0 \<le> clamp v \<and> clamp v \<le> 255"
  by (simp add: clamp_def)

lemma jsRound_nonneg: "0 \<le> x \<Longrightarrow> 0 \<le> jsRound x"
  by (simp add: jsRound_def)

lemma lutIndex_nonneg:
  assumes "1 \<le> lut_size al"
  shows "0 \<le> lutIndex al (r, g, b)"
proof -
  have n: "0 \<le> real_of_int (lut_size al - 1)" using assms by simp
  have c: "0 \<le> clamp v / 255" for v using clamp_range[of v] by simp
  have j: "0 \<le> jsRound (clamp v / 255 * real_of_int (lut_size al - 1))" for v
    by (rule jsRound_nonneg) (intro mult_nonneg_nonneg c n)
  have s: "0 \<le> lut_size al" using assms by simp
  have "0 \<le> jsRound (clamp r / 255 * real_of_int (lut_size al - 1))
           + jsRound (clamp g / 255 * real_of_int (lut_size al - 1)) * lut_size al
           + jsRound (clamp b / 255 * real_of_int (lut_size al - 1)) * (lut_size al * lut_size al)"
    using j s by (intro add_nonneg_nonneg mult_nonneg_nonneg)
  then show ?thesis by (simp add: Let_def)
qed

text \<open>
  C5, as stated for a LUT of any size, fails: with size 0 and an empty lattice, the pixel
  (255, 0, 0) gets the flat index -3, which passes \<^verbatim>\<open>idx < data.length - 2\<close>; the three
  reads are outside the array and every channel becomes NaN.
\<close>

theorem lutStage_size_zero_counterexample:
  "lutIndex lutZero (255, 0, 0) = - 3 \<and>
   lutRead (lut_data lutZero) (- 3) = None \<and>
   lutStage DEFAULT_SETTINGS (Some lutZero) (255, 0, 0) = (None, None, None)"
  by (simp add: lutZero_def DEFAULT_SETTINGS_def clamp_def jsRound_def lutRead_def
      lutBlend_def Let_def)

text \<open>
  C5, amended. For a LUT whose size is an integer \<open>\<ge> 1\<close>, with a lattice of any length:
  the flat index is never negative; when \<open>idx + 2\<close> is inside the lattice the three reads
  are inside it and the channels are blended with the values read; when it is not, the
  stage returns the pixel unchanged.
\<close>

theorem lutStage_bounds:
  assumes "1 \<le> lut_size al"
  shows "0 \<le> lutIndex al (r, g, b) \<and>
    (0 < lutIntensity st \<and> lutIndex al (r, g, b) + 2 < int (length (lut_data al)) \<longrightarrow>
       lutStage st (Some al) (r, g, b) =
         (Some (r * (1 - lutIntensity st / 100)
                + lut_data al ! nat (lutIndex al (r, g, b)) * 255 * (lutIntensity st / 100)),
          Some (g * (1 - lutIntensity st / 100)
                + lut_data al ! nat (lutIndex al (r, g, b) + 1) * 255 * (lutIntensity st / 100)),
          Some (b * (1 - lutIntensity st / 100)
                + lut_data al ! nat (lutIndex al (r, g, b) + 2) * 255
                  * (lutIntensity st / 100)))) \<and>
    (\<not> lutIndex al (r, g, b) + 2 < int (length (lut_data al)) \<longrightarrow>
       lutStage st (Some al) (r, g, b) = (Some r, Some g, Some b))"
proof -
  define idx where "idx = lutIndex al (r, g, b)"
  have nn: "0 \<le> idx" unfolding idx_def using assms by (rule lutIndex_nonneg)
  have skip: "\<not> idx + 2 < int (length (lut_data al)) \<Longrightarrow>
     lutStage st (Some al) (r, g, b) = (Some r, Some g, Some b)"
    unfolding idx_def by (simp add: Let_def del: lutIndex.simps)
  have hit: "0 < lutIntensity st \<Longrightarrow> idx + 2 < int (length (lut_data al)) \<Longrightarrow>
     lutStage st (Some al) (r, g, b) =
         (Some (r * (1 - lutIntensity st / 100)
                + lut_data al ! nat idx * 255 * (lutIntensity st / 100)),
          Some (g * (1 - lutIntensity st / 100)
                + lut_data al ! nat (idx + 1) * 255 * (lutIntensity st / 100)),
          Some (b * (1 - lutIntensity st / 100)
                + lut_data al ! nat (idx + 2) * 255 * (lutIntensity st / 100)))"
    using nn unfolding idx_def by (simp add: Let_def lutRead_def lutBlend_def del: lutIndex.simps)
  show ?thesis using nn skip hit unfolding idx_def by blast
qed

theorem lutStage_bounds_witness:
  "1 \<le> lut_size lutShort \<and>
   \<not> lutIndex lutShort (255, 255, 255) + 2 < int (length (lut_data lutShort)) \<and>
   lutStage DEFAULT_SETTINGS (Some lutShort) (255, 255, 255) = (Some 255, Some 255, Some 255)"
proof -
  have a: "1 \<le> lut_size lutShort" by (simp add: lutShort_def)
  have b: "\<not> lutIndex lutShort (255, 255, 255) + 2 < int (length (lut_data lutShort))"
    by (simp add: lutShort_def clamp_def jsRound_def Let_def)
  show ?thesis using a b lutStage_bounds [OF a, of 255 255 255 DEFAULT_SETTINGS] by blast
qed

section \<open>The frame: what \<^verbatim>\<open>processImage\<close> writes\<close>

lemma toUint8Clamp_le: "toUint8Clamp x \<le> 255"
proof -
  define c where "c = min 255 (max 0 x)"
  have c: "0 \<le> c" "c \<le> 255" unfolding c_def by auto
  have f0: "0 \<le> \<lfloor>c\<rfloor>" using c by simp
  have f1: "\<lfloor>c\<rfloor> \<le> 255" using c by (simp add: floor_le_iff)
  show ?thesis
  proof (cases "\<lfloor>c\<rfloor> = 255")
    case True
    then have "c < of_int \<lfloor>c\<rfloor> + 1 / 2" "\<not> of_int \<lfloor>c\<rfloor> + 1 / 2 < c" using c by simp_all
    then have "toUint8Clamp x = nat \<lfloor>c\<rfloor>"
      unfolding toUint8Clamp_def c_def[symmetric] Let_def by presburger
    then show ?thesis using True by simp
  next
    case False
    with f1 have "\<lfloor>c\<rfloor> + 1 \<le> 255" by linarith
    with f0 have "nat \<lfloor>c\<rfloor> \<le> 255" "nat (\<lfloor>c\<rfloor> + 1) \<le> 255" by linarith+
    then show ?thesis unfolding toUint8Clamp_def c_def[symmetric] Let_def by presburger
  qed
qed

lemma storeByte_le: "storeByte c \<le> 255"
  by (cases c) (simp_all add: storeByte_def toUint8Clamp_le)

lemma length_pixelLoop: "length (pixelLoop st al w h d i out) = length out"
proof (induction st al w h d i out rule: pixelLoop.induct)
  case (1 st al w h d i out)
  show ?case
  proof (cases "i < length d")
    case True
    obtain r g b where p: "processPixel st al w h i (d ! i, d ! (i + 1), d ! (i + 2)) = (r, g, b)"
      by (cases "processPixel st al w h i (d ! i, d ! (i + 1), d ! (i + 2))")
    show ?thesis
      using "1.IH"[OF True p[symmetric] refl] True p
      by (subst pixelLoop.simps) simp
  next
    case False
    then show ?thesis by (subst pixelLoop.simps) simp
  qed
qed

lemma pixelLoop_alpha:
  "i mod 4 = 0 \<Longrightarrow> j mod 4 = 3 \<Longrightarrow> pixelLoop st al w h d i out ! j = out ! j"
proof (induction st al w h d i out rule: pixelLoop.induct)
  case (1 st al w h d i out)
  show ?case
  proof (cases "i < length d")
    case True
    obtain r g b where p: "processPixel st al w h i (d ! i, d ! (i + 1), d ! (i + 2)) = (r, g, b)"
      by (cases "processPixel st al w h i (d ! i, d ! (i + 1), d ! (i + 2))")
    have i4: "(i + 4) mod 4 = 0" using "1.prems"(1) by presburger
    have ne: "j \<noteq> i" "j \<noteq> i + 1" "j \<noteq> i + 2" using "1.prems" by presburger+
    have "pixelLoop st al w h d i out ! j =
          pixelLoop st al w h d (i + 4)
            (out[i := storeByte r, i + 1 := storeByte g, i + 2 := storeByte b]) ! j"
      using True p by (subst pixelLoop.simps) simp
    also have "\<dots> = (out[i := storeByte r, i + 1 := storeByte g, i + 2 := storeByte b]) ! j"
      using "1.IH"[OF True p[symmetric] refl i4 "1.prems"(2)] .
    also have "\<dots> = out ! j" using ne by simp
    finally show ?thesis .
  next
    case False
    then show ?thesis by (subst pixelLoop.simps) simp
  qed
qed

lemma pixelLoop_le255:
  "i mod 4 = 0 \<Longrightarrow> length out = length d \<Longrightarrow> j < length d \<Longrightarrow> j mod 4 \<noteq> 3 \<Longrightarrow>
   i \<le> j \<or> out ! j \<le> 255 \<Longrightarrow> pixelLoop st al w h d i out ! j \<le> 255"
proof (induction st al w h d i out rule: pixelLoop.induct)
  case (1 st al w h d i out)
  show ?case
  proof (cases "i < length d")
    case True
    obtain r g b where p: "processPixel st al w h i (d ! i, d ! (i + 1), d ! (i + 2)) = (r, g, b)"
      by (cases "processPixel st al w h i (d ! i, d ! (i + 1), d ! (i + 2))")
    let ?out = "out[i := storeByte r, i + 1 := storeByte g, i + 2 := storeByte b]"
    have i4: "(i + 4) mod 4 = 0" using "1.prems"(1) by presburger
    have len: "length ?out = length d" using "1.prems"(2) by simp
    have jl: "j < length out" using "1.prems" by simp
    have step: "i + 4 \<le> j \<or> ?out ! j \<le> 255"
    proof (cases "i + 4 \<le> j")
      case True then show ?thesis by simp
    next
      case False
      show ?thesis
      proof (cases "i \<le> j")
        case True
        then have "j = i \<or> j = i + 1 \<or> j = i + 2"
          using False "1.prems"(1,4) by presburger
        then have "?out ! j \<le> 255"
          using jl storeByte_le by (auto simp: nth_list_update)
        then show ?thesis by simp
      next
        case False
        then have "?out ! j = out ! j" by simp
        then show ?thesis using False "1.prems"(5) by simp
      qed
    qed
    have "pixelLoop st al w h d i out ! j = pixelLoop st al w h d (i + 4) ?out ! j"
      using True p by (subst pixelLoop.simps) simp
    also have "\<dots> \<le> 255"
      using "1.IH"[OF True p[symmetric] refl i4 len "1.prems"(3) "1.prems"(4) step] .
    finally show ?thesis .
  next
    case False
    then show ?thesis using "1.prems" by (subst pixelLoop.simps) simp
  qed
qed

lemma fold_invariant:
  "(\<And>x s. x \<in> set xs \<Longrightarrow> P s \<Longrightarrow> P (f x s)) \<Longrightarrow> P s \<Longrightarrow> P (fold f xs s)"
  by (induction xs arbitrary: s) simp_all

lemma texturePixel_length: "length (texturePixel td w a y x c out) = length out"
  by (simp add: texturePixel_def Let_def)

lemma texturePixel_form:
  "\<exists>z. texturePixel td w a y x c out = out[(y * w + x) * 4 + c := toUint8Clamp z]"
  unfolding texturePixel_def Let_def by blast

lemma texturePixel_alpha:
  assumes c: "c < 3" and j: "j mod 4 = 3"
  shows "texturePixel td w a y x c out ! j = out ! j"
proof -
  obtain z where z: "texturePixel td w a y x c out = out[(y * w + x) * 4 + c := toUint8Clamp z]"
    using texturePixel_form by blast
  have "(k * 4 + c) mod 4 = c" for k :: nat using c by simp
  then have "((y * w + x) * 4 + c) mod 4 = c" .
  then have "(y * w + x) * 4 + c \<noteq> j" using c j by auto
  then show ?thesis unfolding z by (rule nth_list_update_neq)
qed

lemma texturePixel_le255:
  assumes "out ! j \<le> 255" "j < length out"
  shows "texturePixel td w a y x c out ! j \<le> 255"
proof -
  obtain z where z: "texturePixel td w a y x c out = out[(y * w + x) * 4 + c := toUint8Clamp z]"
    using texturePixel_form by blast
  show ?thesis unfolding z using assms toUint8Clamp_le[of z]
    by (cases "(y * w + x) * 4 + c = j") (simp_all del: mult_Suc_right)
qed

lemma textureFilter_inv:
  assumes step: "\<And>y x c s. c < 3 \<Longrightarrow> P s \<Longrightarrow> P (texturePixel out w (texture st / 100) y x c s)"
    and init: "P out"
  shows "P (textureFilter st w h out)"
proof (cases "texture st \<noteq> 0")
  case True
  let ?C = "\<lambda>y x. fold (\<lambda>c. texturePixel out w (texture st / 100) y x c) [0..<3]"
  let ?X = "\<lambda>y. fold (\<lambda>x. ?C y x) [1..<w - 1]"
  have c: "P (?C y x s)" if "P s" for y x s
    using that
  proof (rule fold_invariant[where P = P, rotated])
    fix c s' assume "c \<in> set [0..<3]" "P s'"
    then show "P (texturePixel out w (texture st / 100) y x c s')" by (intro step) simp_all
  qed
  have x: "P (?X y s)" if "P s" for y s
    using that
  proof (rule fold_invariant[where P = P, rotated])
    fix x s' assume "P s'"
    then show "P (?C y x s')" by (rule c)
  qed
  have "P (fold ?X [1..<h - 1] out)"
    using init
  proof (rule fold_invariant[where P = P, rotated])
    fix y s' assume "P s'"
    then show "P (?X y s')" by (rule x)
  qed
  then show ?thesis using True by (simp add: textureFilter_def Let_def)
next
  case False
  then show ?thesis using init by (simp add: textureFilter_def)
qed

lemma textureFilter_length: "length (textureFilter st w h out) = length out"
  by (rule textureFilter_inv[where P = "\<lambda>s. length s = length out"])
     (simp_all add: texturePixel_length)

lemma textureFilter_alpha: "j mod 4 = 3 \<Longrightarrow> textureFilter st w h out ! j = out ! j"
  by (rule textureFilter_inv[where P = "\<lambda>s. s ! j = out ! j"])
     (simp_all add: texturePixel_alpha)

lemma textureFilter_le255:
  "out ! j \<le> 255 \<Longrightarrow> j < length out \<Longrightarrow> textureFilter st w h out ! j \<le> 255"
  by (rule textureFilter_inv[where P = "\<lambda>s. length s = length out \<and> s ! j \<le> 255", THEN conjunct2])
     (simp_all add: texturePixel_length texturePixel_le255)

text \<open>What the two passes leave alone, and the range of what they write.\<close>

lemma processImage_frame_basic:
  assumes ok: "ImageData_ok img"
  shows "img_width (processImage img st al) = img_width img \<and>
         img_height (processImage img st al) = img_height img \<and>
         length (img_data (processImage img st al)) = length (img_data img) \<and>
         (\<forall>j < length (img_data img).
            (j mod 4 = 3 \<longrightarrow> img_data (processImage img st al) ! j = img_data img ! j) \<and>
            (j mod 4 \<noteq> 3 \<longrightarrow> img_data (processImage img st al) ! j \<le> 255)) \<and>
         ImageData_ok (processImage img st al)"
proof -
  let ?d = "img_data img"
  let ?w = "img_width img"
  let ?h = "img_height img"
  let ?p = "pixelLoop st al ?w ?h ?d 0 ?d"
  let ?o = "textureFilter st ?w ?h ?p"
  have out: "processImage img st al = \<lparr>img_data = ?o, img_width = ?w, img_height = ?h\<rparr>"
    by (simp add: processImage_def Let_def)
  have len: "length ?o = length ?d"
    by (simp add: textureFilter_length length_pixelLoop)
  have alpha: "?o ! j = ?d ! j" if "j mod 4 = 3" for j
    using that by (simp add: textureFilter_alpha pixelLoop_alpha)
  have rgb: "?o ! j \<le> 255" if "j < length ?d" "j mod 4 \<noteq> 3" for j
  proof -
    have "?p ! j \<le> 255" using that by (intro pixelLoop_le255) simp_all
    then show ?thesis using that by (intro textureFilter_le255) (simp_all add: length_pixelLoop)
  qed
  have bytes: "list_all (\<lambda>b. b < 256) ?o"
    unfolding list_all_length
  proof (intro allI impI)
    fix j assume j: "j < length ?o"
    then have jd: "j < length ?d" using len by simp
    show "?o ! j < 256"
    proof (cases "j mod 4 = 3")
      case True
      have "?d ! j < 256" using ok jd by (simp add: ImageData_ok_def list_all_length)
      then show ?thesis using alpha[OF True] by simp
    next
      case False
      then show ?thesis using rgb[OF jd False] by simp
    qed
  qed
  have ok': "ImageData_ok (processImage img st al)"
    using ok len bytes unfolding out by (simp add: ImageData_ok_def)
  show ?thesis using len alpha rgb ok' unfolding out by simp
qed


text \<open>The store, and what each pass writes at a given offset.\<close>

lemma toUint8Clamp_clamp: "toUint8Clamp (clamp v) = toUint8Clamp v"
proof -
  have "min 255 (max 0 (clamp v)) = min 255 (max 0 v)"
    unfolding clamp_def by (simp add: min_def max_def)
  then show ?thesis unfolding toUint8Clamp_def by (simp only:)
qed

lemma toUint8Clamp_low: "v \<le> 0 \<Longrightarrow> toUint8Clamp v = 0"
  by (simp add: toUint8Clamp_def Let_def max_def)

lemma toUint8Clamp_high: "255 \<le> v \<Longrightarrow> toUint8Clamp v = 255"
  by (simp add: toUint8Clamp_def Let_def min_def max_def)

lemma toUint8Clamp_near:
  assumes "0 \<le> v" "v \<le> 255"
  shows "\<bar>real (toUint8Clamp v) - v\<bar> \<le> 1 / 2"
proof -
  have c: "min 255 (max 0 v) = v" using assms by simp
  have f0: "0 \<le> \<lfloor>v\<rfloor>" using assms by simp
  have lo: "real_of_int \<lfloor>v\<rfloor> \<le> v" and hi: "v < real_of_int \<lfloor>v\<rfloor> + 1" by linarith+
  consider (up) "real_of_int \<lfloor>v\<rfloor> + 1 / 2 < v" | (down) "v < real_of_int \<lfloor>v\<rfloor> + 1 / 2"
    | (tie) "v = real_of_int \<lfloor>v\<rfloor> + 1 / 2" by linarith
  then show ?thesis
  proof cases
    case up
    then have "toUint8Clamp v = nat (\<lfloor>v\<rfloor> + 1)"
      unfolding toUint8Clamp_def Let_def c by simp
    then have "real (toUint8Clamp v) = real_of_int \<lfloor>v\<rfloor> + 1" using f0 by simp
    then show ?thesis using up hi by simp
  next
    case down
    then have "toUint8Clamp v = nat \<lfloor>v\<rfloor>"
      unfolding toUint8Clamp_def Let_def c by simp
    then have "real (toUint8Clamp v) = real_of_int \<lfloor>v\<rfloor>" using f0 by simp
    then show ?thesis using down lo by simp
  next
    case tie
    then have "toUint8Clamp v = nat \<lfloor>v\<rfloor> \<or> toUint8Clamp v = nat (\<lfloor>v\<rfloor> + 1)"
      unfolding toUint8Clamp_def Let_def c by simp
    then have "real (toUint8Clamp v) = real_of_int \<lfloor>v\<rfloor>
               \<or> real (toUint8Clamp v) = real_of_int \<lfloor>v\<rfloor> + 1" using f0 by auto
    then show ?thesis using tie by auto
  qed
qed

lemma storeByte_saturates:
  "storeByte None = 0 \<and>
   (v \<le> 0 \<longrightarrow> storeByte (Some v) = 0) \<and>
   (255 \<le> v \<longrightarrow> storeByte (Some v) = 255) \<and>
   (0 \<le> v \<and> v \<le> 255 \<longrightarrow> \<bar>real (storeByte (Some v)) - v\<bar> \<le> 1 / 2)"
proof -
  have e: "storeByte (Some v) = toUint8Clamp v" by (simp add: storeByte_def toUint8Clamp_clamp)
  have n: "storeByte None = 0" by (simp add: storeByte_def)
  show ?thesis
    unfolding e using n toUint8Clamp_low[of v] toUint8Clamp_high[of v] toUint8Clamp_near[of v]
    by blast
qed

lemma pixelLoop_nth:
  "i mod 4 = 0 \<Longrightarrow> length out = length d \<Longrightarrow> j < length d \<Longrightarrow> j mod 4 \<noteq> 3 \<Longrightarrow>
   i \<le> j \<or> out ! j = pixelByte st al w h d j \<Longrightarrow>
   pixelLoop st al w h d i out ! j = pixelByte st al w h d j"
proof (induction st al w h d i out rule: pixelLoop.induct)
  case (1 st al w h d i out)
  show ?case
  proof (cases "i < length d")
    case True
    obtain r g b where p: "processPixel st al w h i (d ! i, d ! (i + 1), d ! (i + 2)) = (r, g, b)"
      by (cases "processPixel st al w h i (d ! i, d ! (i + 1), d ! (i + 2))")
    let ?out = "out[i := storeByte r, i + 1 := storeByte g, i + 2 := storeByte b]"
    have i4: "(i + 4) mod 4 = 0" using "1.prems"(1) by presburger
    have len: "length ?out = length d" using "1.prems"(2) by simp
    have jl: "j < length out" using "1.prems" by simp
    have step: "i + 4 \<le> j \<or> ?out ! j = pixelByte st al w h d j"
    proof (cases "i + 4 \<le> j")
      case True then show ?thesis by simp
    next
      case False
      show ?thesis
      proof (cases "i \<le> j")
        case True
        obtain k where k: "i = 4 * k"
          using "1.prems"(1) by (auto simp: mod_eq_0_iff_dvd)
        define e where "e = j - i"
        have je: "j = i + e" using True by (simp add: e_def)
        have e3: "e < 3"
        proof (rule ccontr)
          assume "\<not> e < 3"
          then have "e = 3" using False je by simp
          then have "j mod 4 = 3" using je k by simp
          then show False using "1.prems"(4) by simp
        qed
        have base: "4 * (j div 4) = i" and ch: "j mod 4 = e"
          using e3 unfolding je k by simp_all
        have pb: "pixelByte st al w h d j = storeByte (channel e (r, g, b))"
          unfolding pixelByte_def Let_def base ch p ..
        have e012: "e = 0 \<or> e = 1 \<or> e = 2" using e3 by auto
        have li: "i < length out" "i + 1 < length out \<or> e = 0" "i + 2 < length out \<or> e \<noteq> 2"
          using jl je e3 by auto
        have "?out ! (i + e) = storeByte (channel e (r, g, b))"
          using e012 li by (auto simp: nth_list_update)
        then show ?thesis using pb je by simp
      next
        case False
        then have "?out ! j = out ! j" by simp
        then show ?thesis using False "1.prems"(5) by simp
      qed
    qed
    have "pixelLoop st al w h d i out ! j = pixelLoop st al w h d (i + 4) ?out ! j"
      using True p by (subst pixelLoop.simps) simp
    also have "\<dots> = pixelByte st al w h d j"
      using "1.IH"[OF True p[symmetric] refl i4 len "1.prems"(3) "1.prems"(4) step] .
    finally show ?thesis .
  next
    case False
    then show ?thesis using "1.prems" by (subst pixelLoop.simps) simp
  qed
qed



lemma offset_inj:
  fixes w :: nat
  assumes "x < w" "x' < w" "c < 4" "c' < 4"
    and eq: "(y * w + x) * 4 + c = (y' * w + x') * 4 + c'"
  shows "y = y' \<and> x = x' \<and> c = c'"
proof -
  have m: "((k * 4 + e) mod 4 = e) \<and> ((k * 4 + e) div 4 = k)" if "e < 4" for k e :: nat
    using that by simp
  have c: "c = c'" using m[OF assms(3), of "y * w + x"] m[OF assms(4), of "y' * w + x'"] eq
    by metis
  have k: "y * w + x = y' * w + x'"
    using m[OF assms(3), of "y * w + x"] m[OF assms(4), of "y' * w + x'"] eq by metis
  have n: "((q * w + e) mod w = e) \<and> ((q * w + e) div w = q)" if "e < w" for q e :: nat
    using that by simp
  show ?thesis using c k n[OF assms(1), of y] n[OF assms(2), of y'] by metis
qed

lemma fold_establish:
  assumes "x0 \<in> set xs"
    and est: "\<And>s. Q s \<Longrightarrow> T (f x0 s)"
    and presT: "\<And>x s. x \<in> set xs \<Longrightarrow> T s \<Longrightarrow> T (f x s)"
    and presQ: "\<And>x s. x \<in> set xs \<Longrightarrow> Q s \<Longrightarrow> Q (f x s)"
    and "Q s"
  shows "T (fold f xs s)"
  using assms
proof (induction xs arbitrary: s)
  case Nil
  then show ?case by simp
next
  case (Cons x xs)
  show ?case
  proof (cases "x = x0")
    case True
    have "T (f x s)" using Cons.prems(2)[OF Cons.prems(5)] True by simp
    then have "T (fold f xs (f x s))"
      by (rule fold_invariant[where P = T, rotated]) (simp add: Cons.prems(3))
    then show ?thesis by simp
  next
    case False
    then have in_xs: "x0 \<in> set xs" using Cons.prems(1) by simp
    have "Q (f x s)" using Cons.prems(4)[of x s] Cons.prems(5) by simp
    then have "T (fold f xs (f x s))"
      using Cons.IH[OF in_xs Cons.prems(2)] Cons.prems(3,4) by simp
    then show ?thesis by simp
  qed
qed

lemma texturePixel_eq:
  "texturePixel td w a y x c s =
     s[(y * w + x) * 4 + c := toUint8Clamp (textureValue td w a y x c)]"
  by (simp add: texturePixel_def Let_def)

lemma textureFilter_visit_inv:
  assumes step: "\<And>y x c s. 1 \<le> y \<Longrightarrow> y + 1 < h \<Longrightarrow> 1 \<le> x \<Longrightarrow> x + 1 < w \<Longrightarrow> c < 3 \<Longrightarrow>
                   P s \<Longrightarrow> P (texturePixel out w (texture st / 100) y x c s)"
    and init: "P out"
  shows "P (textureFilter st w h out)"
proof (cases "texture st \<noteq> 0")
  case True
  let ?C = "\<lambda>y x. fold (\<lambda>c. texturePixel out w (texture st / 100) y x c) [0..<3]"
  let ?X = "\<lambda>y. fold (\<lambda>x. ?C y x) [1..<w - 1]"
  have c: "P (?C y x s)" if "P s" "1 \<le> y" "y + 1 < h" "1 \<le> x" "x + 1 < w" for y x s
    using that(1)
  proof (rule fold_invariant[where P = P, rotated])
    fix c s' assume "c \<in> set [0..<3]" "P s'"
    then show "P (texturePixel out w (texture st / 100) y x c s')"
      using that by (intro step) simp_all
  qed
  have x: "P (?X y s)" if "P s" "1 \<le> y" "y + 1 < h" for y s
    using that(1)
  proof (rule fold_invariant[where P = P, rotated])
    fix x s' assume "x \<in> set [1..<w - 1]" "P s'"
    then show "P (?C y x s')" using that by (intro c) auto
  qed
  have "P (fold ?X [1..<h - 1] out)"
    using init
  proof (rule fold_invariant[where P = P, rotated])
    fix y s' assume "y \<in> set [1..<h - 1]" "P s'"
    then show "P (?X y s')" by (intro x) auto
  qed
  then show ?thesis using True by (simp add: textureFilter_def Let_def)
next
  case False
  then show ?thesis using init by (simp add: textureFilter_def)
qed

lemma textureFilter_border:
  assumes w: "0 < w" and ni: "\<not> interior w h j \<or> j mod 4 = 3"
  shows "textureFilter st w h out ! j = out ! j"
proof (rule textureFilter_visit_inv[where P = "\<lambda>s. s ! j = out ! j"])
  fix y x c s
  assume v: "1 \<le> y" "y + 1 < h" "1 \<le> x" "x + 1 < w" "c < (3::nat)" and s: "s ! j = out ! j"
  have "(y * w + x) * 4 + c \<noteq> j"
  proof
    assume e: "(y * w + x) * 4 + c = j"
    have xw: "x < w" using v by simp
    have c4: "c < 4" using v by simp
    have dm: "(k * 4 + c) div 4 = k \<and> (k * 4 + c) mod 4 = c" for k using c4 by simp
    have j4: "j div 4 = y * w + x" "j mod 4 = c" using dm[of "y * w + x"] e by simp_all
    have "(y * w + x) div w = y \<and> (y * w + x) mod w = x" using xw by simp
    then have "interior w h j" using v j4 by (simp add: interior_def)
    then show False using ni j4 v by simp
  qed
  then show "texturePixel out w (texture st / 100) y x c s ! j = out ! j"
    using s by (simp add: texturePixel_eq del: mult_Suc_right)
qed simp

lemma textureFilter_interior:
  assumes w: "0 < w" and t: "texture st \<noteq> 0" and i: "interior w h j" and c3: "j mod 4 \<noteq> 3"
    and len: "j < length out"
  shows "textureFilter st w h out ! j = textureByte out w (texture st / 100) j"
proof -
  define y0 x0 c0 where "y0 = (j div 4) div w" and "x0 = (j div 4) mod w" and "c0 = j mod 4"
  define a where "a = texture st / 100"
  define val where "val = toUint8Clamp (textureValue out w a y0 x0 c0)"
  define n where "n = length out"
  let ?T = "\<lambda>s. length s = n \<and> s ! j = val"
  let ?Q = "\<lambda>s::nat list. length s = n"
  let ?C = "\<lambda>y x. fold (\<lambda>c. texturePixel out w a y x c) [0..<3]"
  let ?X = "\<lambda>y. fold (\<lambda>x. ?C y x) [1..<w - 1]"
  have dec: "(y0 * w + x0) * 4 + c0 = j" unfolding y0_def x0_def c0_def by simp
  have x0w: "x0 < w" using w by (simp add: x0_def)
  have c03: "c0 < 3" using c3 unfolding c0_def by presburger
  have rng: "1 \<le> y0" "y0 + 1 < h" "1 \<le> x0" "x0 + 1 < w"
    using i unfolding interior_def y0_def x0_def by simp_all
  have jn: "j < n" using len by (simp add: n_def)
  have presQ: "?Q (texturePixel out w a y x c s)" if "?Q s" for y x c s
    using that by (simp add: texturePixel_eq)
  have presT: "?T (texturePixel out w a y x c s)" if "?T s" "x < w" "c < 3" for y x c s
  proof (cases "(y * w + x) * 4 + c = j")
    case True
    then have "(y * w + x) * 4 + c = (y0 * w + x0) * 4 + c0" using dec by simp
    then have "y = y0 \<and> x = x0 \<and> c = c0"
      using that(2,3) x0w c03 by (intro offset_inj[of x w x0 c c0 y y0]) simp_all
    then show ?thesis using that(1) jn True unfolding texturePixel_eq val_def
      by (simp del: mult_Suc_right)
  next
    case False
    then show ?thesis using that(1) unfolding texturePixel_eq by (simp del: mult_Suc_right)
  qed
  have est: "?T (texturePixel out w a y0 x0 c0 s)" if "?Q s" for s
    using that jn unfolding texturePixel_eq dec val_def by simp
  have C_Q: "?Q (?C y x s)" if "?Q s" for y x s
    using that by (rule fold_invariant[where P = ?Q, rotated]) (rule presQ)
  have C_T: "?T (?C y x s)" if "?T s" "x < w" for y x s
    using that(1)
  proof (rule fold_invariant[where P = ?T, rotated])
    fix c s' assume "c \<in> set [0..<3]" "?T s'"
    then show "?T (texturePixel out w a y x c s')" using that(2) by (intro presT) simp_all
  qed
  have C_est: "?T (?C y0 x0 s)" if "?Q s" for s
  proof (rule fold_establish[where Q = ?Q and T = ?T and ?x0.0 = c0])
    show "c0 \<in> set [0..<3]" using c03 by simp
    show "?Q s" by (rule that)
  next
    fix s' assume "?Q s'" then show "?T (texturePixel out w a y0 x0 c0 s')" by (rule est)
  next
    fix c s' assume "c \<in> set [0..<3]" "?T s'"
    then show "?T (texturePixel out w a y0 x0 c s')" using x0w by (intro presT) simp_all
  next
    fix c s' assume "?Q s'" then show "?Q (texturePixel out w a y0 x0 c s')" by (rule presQ)
  qed
  have X_Q: "?Q (?X y s)" if "?Q s" for y s
    using that by (rule fold_invariant[where P = ?Q, rotated]) (rule C_Q)
  have X_T: "?T (?X y s)" if "?T s" for y s
    using that
  proof (rule fold_invariant[where P = ?T, rotated])
    fix x s' assume "x \<in> set [1..<w - 1]" "?T s'"
    then show "?T (?C y x s')" by (intro C_T) auto
  qed
  have X_est: "?T (?X y0 s)" if "?Q s" for s
  proof (rule fold_establish[where Q = ?Q and T = ?T and ?x0.0 = x0])
    show "x0 \<in> set [1..<w - 1]" using rng by auto
    show "?Q s" by (rule that)
  next
    fix s' assume "?Q s'" then show "?T (?C y0 x0 s')" by (rule C_est)
  next
    fix x s' assume "x \<in> set [1..<w - 1]" "?T s'"
    then show "?T (?C y0 x s')" by (intro C_T) auto
  next
    fix x s' assume "?Q s'" then show "?Q (?C y0 x s')" by (rule C_Q)
  qed
  have "?T (fold ?X [1..<h - 1] out)"
  proof (rule fold_establish[where Q = ?Q and T = ?T and ?x0.0 = y0])
    show "y0 \<in> set [1..<h - 1]" using rng by auto
    show "?Q out" by (simp add: n_def)
  next
    fix s' assume "?Q s'" then show "?T (?X y0 s')" by (rule X_est)
  next
    fix y s' assume "?T s'" then show "?T (?X y s')" by (rule X_T)
  next
    fix y s' assume "?Q s'" then show "?Q (?X y s')" by (rule X_Q)
  qed
  then have "textureFilter st w h out ! j = val"
    using t by (simp add: textureFilter_def Let_def a_def)
  then show ?thesis
    by (simp add: val_def textureByte_def a_def y0_def x0_def c0_def)
qed

lemma toUint8Clamp_near_clamp: "\<bar>real (toUint8Clamp v) - clamp v\<bar> \<le> 1 / 2"
proof -
  have "0 \<le> clamp v" "clamp v \<le> 255" by (simp_all add: clamp_def)
  then have "\<bar>real (toUint8Clamp (clamp v)) - clamp v\<bar> \<le> 1 / 2" by (rule toUint8Clamp_near)
  then show ?thesis by (simp only: toUint8Clamp_clamp)
qed

text \<open>The ring image under \<^const>\<open>brightTextured\<close> and \<^const>\<open>lutWhiteShort\<close>, stage by stage.\<close>

lemma brightTextured_truncate: "localSettings.truncate brightTextured =
   \<lparr>exposure = 50, contrast = 0, highlights = 0, shadows = 0, texture = 100,
      clarity = 0, saturation = 0, temperature = 0, tint = 0\<rparr>"
  by (simp add: brightTextured_def DEFAULT_SETTINGS_def localSettings.truncate_def)

lemma applyAdjustments_one_stop: "applyAdjustments r g b \<lparr>exposure = 50, contrast = 0, highlights = 0, shadows = 0, texture = 100,
      clarity = 0, saturation = 0, temperature = 0, tint = 0\<rparr> = (2 * r, 2 * g, 2 * b)"
  by (simp add: applyAdjustments_def Let_def algebra_simps)

lemma brightTextured_mixer: "mixerStage (r, g, b) (colorMixer brightTextured) = (r, g, b)"
  by (simp add: brightTextured_def DEFAULT_SETTINGS_def getMixerAdjustment_def DEFAULT_MIXER_def DEFAULT_MIXER_CHANNEL_def Let_def)

lemma brightTextured_fields: "masks brightTextured = []" "lutIntensity brightTextured = 50" "texture brightTextured = 100"
  by (simp_all add: brightTextured_def DEFAULT_SETTINGS_def)

lemma lutWhiteShort_index_ring: "lutIndex lutWhiteShort (400, 100, 50) = 3"
  by (simp add: lutWhiteShort_def clamp_def jsRound_def Let_def)

lemma lutWhiteShort_index_centre: "lutIndex lutWhiteShort (120, 60, 20) = 0"
  by (simp add: lutWhiteShort_def clamp_def jsRound_def Let_def)

lemma lutStage_ring: "lutStage brightTextured (Some lutWhiteShort) (400, 100, 50) = (Some 400, Some 100, Some 50)"
  using lutWhiteShort_index_ring by (simp add: brightTextured_fields lutWhiteShort_def Let_def del: lutIndex.simps)

lemma lutStage_centre: "lutStage brightTextured (Some lutWhiteShort) (120, 60, 20) = (Some (375 / 2), Some (315 / 2), Some (275 / 2))"
  using lutWhiteShort_index_centre by (simp add: brightTextured_fields lutWhiteShort_def Let_def lutRead_def lutBlend_def del: lutIndex.simps)

lemma processPixel_ring: "processPixel brightTextured (Some lutWhiteShort) 3 3 i (200, 50, 25)
   = (Some 400, Some 100, Some 50)"
  using lutStage_ring by (simp add: brightTextured_truncate applyAdjustments_one_stop brightTextured_mixer brightTextured_fields Let_def del: lutStage.simps mixerStage.simps)

lemma processPixel_centre: "processPixel brightTextured (Some lutWhiteShort) 3 3 i (60, 30, 10)
   = (Some (375 / 2), Some (315 / 2), Some (275 / 2))"
  using lutStage_centre by (simp add: brightTextured_truncate applyAdjustments_one_stop brightTextured_mixer brightTextured_fields Let_def del: lutStage.simps mixerStage.simps)

lemma storeByte_examples: "storeByte (Some 400) = 255" "storeByte (Some (375 / 2)) = 188"
  by (simp_all add: storeByte_def clamp_def toUint8Clamp_def Let_def)


lemma ringImage_border_byte:
  "pixelByte brightTextured (Some lutWhiteShort) 3 3 (img_data ringImage) 0 = 255 \<and>
   pixelByte brightTextured (Some lutWhiteShort) 3 3 (img_data ringImage) 4 = 255 \<and>
   pixelByte brightTextured (Some lutWhiteShort) 3 3 (img_data ringImage) 8 = 255 \<and>
   pixelByte brightTextured (Some lutWhiteShort) 3 3 (img_data ringImage) 12 = 255 \<and>
   pixelByte brightTextured (Some lutWhiteShort) 3 3 (img_data ringImage) 20 = 255 \<and>
   pixelByte brightTextured (Some lutWhiteShort) 3 3 (img_data ringImage) 24 = 255 \<and>
   pixelByte brightTextured (Some lutWhiteShort) 3 3 (img_data ringImage) 28 = 255 \<and>
   pixelByte brightTextured (Some lutWhiteShort) 3 3 (img_data ringImage) 32 = 255"
  by (simp add: pixelByte_def ringImage_def processPixel_ring storeByte_examples del: processPixel.simps)

lemma ringImage_centre_byte:
  "pixelByte brightTextured (Some lutWhiteShort) 3 3 (img_data ringImage) 16 = 188"
  by (simp add: pixelByte_def ringImage_def processPixel_centre storeByte_examples del: processPixel.simps)

text \<open>
  C9. For every \<^verbatim>\<open>ImageData\<close>, every settings record and every optional LUT,
  \<^verbatim>\<open>processImage\<close> returns an image of the same width and height with a buffer of the
  same length, again a well-formed \<^verbatim>\<open>ImageData\<close>. Every alpha byte (offset 3 modulo 4)
  equals the input's. Every other byte is written by a clamping store: after the pixel
  loop the byte at offset \<open>j\<close> is the store of \<^verbatim>\<open>clamp(c)\<close>, \<open>c\<close> being that channel of the
  processed pixel; in the result it is that byte, except at the interior offsets when
  \<open>texture\<close> is not 0, where it is the store of the texture value
  \<^verbatim>\<open>clamp(center + diff * finalAmount)\<close> computed from the bytes of the pixel loop. A store
  of NaN gives 0; a store of a number gives the integer nearest to its clamp to 0..255,
  so 0 for every number \<open>\<le> 0\<close> and 255 for every number \<open>\<ge> 255\<close>.
\<close>

theorem processImage_frame:
  assumes ok: "ImageData_ok img"
  shows "img_width (processImage img st al) = img_width img \<and>
         img_height (processImage img st al) = img_height img \<and>
         length (img_data (processImage img st al)) = length (img_data img) \<and>
         (\<forall>j < length (img_data img).
            (j mod 4 = 3 \<longrightarrow> img_data (processImage img st al) ! j = img_data img ! j) \<and>
            (j mod 4 \<noteq> 3 \<longrightarrow> img_data (processImage img st al) ! j \<le> 255)) \<and>
         ImageData_ok (processImage img st al) \<and>
         (\<forall>j < length (img_data img). j mod 4 \<noteq> 3 \<longrightarrow>
            pixelLoop st al (img_width img) (img_height img) (img_data img) 0 (img_data img) ! j =
              pixelByte st al (img_width img) (img_height img) (img_data img) j \<and>
            img_data (processImage img st al) ! j =
              (if texture st \<noteq> 0 \<and> interior (img_width img) (img_height img) j
               then textureByte
                      (pixelLoop st al (img_width img) (img_height img) (img_data img) 0
                         (img_data img))
                      (img_width img) (texture st / 100) j
               else pixelByte st al (img_width img) (img_height img) (img_data img) j)) \<and>
         storeByte None = 0 \<and>
         storeByte (Some v) = toUint8Clamp (clamp v) \<and>
         \<bar>real (toUint8Clamp v) - clamp v\<bar> \<le> 1 / 2 \<and>
         (v \<le> 0 \<longrightarrow> toUint8Clamp v = 0) \<and> (255 \<le> v \<longrightarrow> toUint8Clamp v = 255)"
proof -
  let ?d = "img_data img"
  let ?w = "img_width img"
  let ?h = "img_height img"
  let ?p = "pixelLoop st al ?w ?h ?d 0 ?d"
  have basic: "img_width (processImage img st al) = img_width img \<and>
         img_height (processImage img st al) = img_height img \<and>
         length (img_data (processImage img st al)) = length (img_data img) \<and>
         (\<forall>j < length (img_data img).
            (j mod 4 = 3 \<longrightarrow> img_data (processImage img st al) ! j = img_data img ! j) \<and>
            (j mod 4 \<noteq> 3 \<longrightarrow> img_data (processImage img st al) ! j \<le> 255)) \<and>
         ImageData_ok (processImage img st al)"
    using ok by (rule processImage_frame_basic)
  have w: "0 < ?w" using ok by (simp add: ImageData_ok_def)
  have out: "img_data (processImage img st al) = textureFilter st ?w ?h ?p"
    by (simp add: processImage_def Let_def)
  have bytes: "?p ! j = pixelByte st al ?w ?h ?d j \<and>
               img_data (processImage img st al) ! j =
                 (if texture st \<noteq> 0 \<and> interior ?w ?h j
                  then textureByte ?p ?w (texture st / 100) j
                  else pixelByte st al ?w ?h ?d j)"
    if j: "j < length ?d" and c: "j mod 4 \<noteq> 3" for j
  proof -
    have loop: "?p ! j = pixelByte st al ?w ?h ?d j"
      using j c by (intro pixelLoop_nth) simp_all
    have jl: "j < length ?p" using j by (simp add: length_pixelLoop)
    show ?thesis
    proof (cases "texture st \<noteq> 0 \<and> interior ?w ?h j")
      case True
      then have "textureFilter st ?w ?h ?p ! j = textureByte ?p ?w (texture st / 100) j"
        using w c jl by (intro textureFilter_interior) simp_all
      then have "img_data (processImage img st al) ! j = textureByte ?p ?w (texture st / 100) j"
        using out by simp
      then show ?thesis unfolding if_P[OF True] using loop by simp
    next
      case False
      have "textureFilter st ?w ?h ?p ! j = ?p ! j"
      proof (cases "texture st = 0")
        case True
        then show ?thesis by (simp add: textureFilter_def)
      next
        case nz: False
        then have "\<not> interior ?w ?h j" using False by simp
        then show ?thesis using w by (intro textureFilter_border) simp_all
      qed
      then have "img_data (processImage img st al) ! j = pixelByte st al ?w ?h ?d j"
        using loop out by simp
      then show ?thesis unfolding if_not_P[OF False] using loop by simp
    qed
  qed
  have store: "storeByte None = 0 \<and> storeByte (Some v) = toUint8Clamp (clamp v)"
    by (simp add: storeByte_def)
  show ?thesis
    using basic bytes store toUint8Clamp_near_clamp[of v] toUint8Clamp_low[of v]
      toUint8Clamp_high[of v]
    by blast
qed

theorem processImage_frame_witness:
  "ImageData_ok ringImage \<and>
   img_data (processImage ringImage brightTextured (Some lutWhiteShort)) ! 0 = 255 \<and>
   img_data (processImage ringImage brightTextured (Some lutWhiteShort)) ! 16 = 158 \<and>
   img_data (processImage ringImage brightTextured (Some lutWhiteShort)) ! 19 = 200 \<and>
   img_width (processImage ringImage brightTextured (Some lutWhiteShort)) = 3"
proof -
  let ?st = brightTextured
  let ?al = "Some lutWhiteShort"
  let ?out = "img_data (processImage ringImage ?st ?al)"
  define L where "L = pixelLoop ?st ?al 3 3 (img_data ringImage) 0 (img_data ringImage)"
  have ok: "ImageData_ok ringImage" by (simp add: ringImage_def ImageData_ok_def)
  have dims: "img_width ringImage = 3" "img_height ringImage = 3"
    "length (img_data ringImage) = 36" by (simp_all add: ringImage_def)
  note fr = processImage_frame [OF ok, of ?st ?al 0, unfolded dims, folded L_def]
  have alpha: "?out ! 19 = img_data ringImage ! 19" using fr by simp
  have rgb: "L ! j = pixelByte ?st ?al 3 3 (img_data ringImage) j \<and>
             ?out ! j = (if texture ?st \<noteq> 0 \<and> interior 3 3 j
                         then textureByte L 3 (texture ?st / 100) j
                         else pixelByte ?st ?al 3 3 (img_data ringImage) j)"
    if "j < 36" "j mod 4 \<noteq> 3" for j
    using fr that by blast
  have Lb: "L ! 0 = 255" "L ! 4 = 255" "L ! 8 = 255" "L ! 12 = 255" "L ! 16 = 188"
    "L ! 20 = 255" "L ! 24 = 255" "L ! 28 = 255" "L ! 32 = 255"
    using rgb[of 0] rgb[of 4] rgb[of 8] rgb[of 12] rgb[of 16] rgb[of 20] rgb[of 24]
      rgb[of 28] rgb[of 32] ringImage_border_byte ringImage_centre_byte by simp_all
  have o0: "?out ! 0 = 255"
    using rgb[of 0] ringImage_border_byte by (simp add: interior_def)
  have "?out ! 16 = textureByte L 3 (texture ?st / 100) 16"
    using rgb[of 16] by (simp add: interior_def brightTextured_fields)
  also have "\<dots> = 158"
    by (simp add: textureByte_def textureValue_def Lb brightTextured_fields clamp_def toUint8Clamp_def Let_def)
  finally have o16: "?out ! 16 = 158" .
  have w: "img_width (processImage ringImage ?st ?al) = 3" using fr by simp
  show ?thesis using ok o0 o16 alpha w by (simp add: ringImage_def)
qed

end
